theory Spec2Isabelle
  imports Main "HOL-Library.Word" "HOL-Library.AList" "HOL-Library.Multiset"
begin

section \<open>CIDR identity allocation and release of the ipcache (pkg/ipcache/cidr.go)\<close>

text \<open>
  The file under study coordinates two collaborators that live outside of it: the identity
  allocator (\<open>ipc.IdentityAllocator\<close>, an interface) and the ipcache store
  (\<open>ipc.Upsert\<close>, \<open>ipc.deleteLocked\<close>, \<open>ipc.LookupByIPRLocked\<close>). Neither
  is part of the sources at hand, nor are the label helpers, Go's \<open>net\<close> package and
  the deferred release queue. All of them are parameters of the model (record \<open>deps\<close>):
  a call of the source is an application of the parameter, on an abstract allocator state
  \<open>'a\<close>, an abstract cache \<open>'c\<close> and an abstract queue \<open>'q\<close>. What is proved
  holds for every allocator and every cache.

  The locks (\<open>ipc.Lock\<close>, \<open>ipc.metadata.RLock\<close>, \<open>ipc.mutex.RLock\<close>) guard against
  other goroutines; the model is sequential and does not show them.
\<close>

subsection \<open>Data\<close>

text \<open>\<open>identity.NumericIdentity\<close> is a \<open>uint32\<close>; a Go \<open>error\<close> is its message.\<close>

type_synonym NumericIdentity = "32 word"
type_synonym error = string

text \<open>
  \<open>identity.Identity\<close>, with the fields this file reads or writes; \<open>'l\<close> is
  \<open>labels.Labels\<close>. The source handles identities by pointer; the slices and maps of
  the model hold identities proper, so a nil pointer in them is excluded by the types.
  The only nil identity the source itself produces is the one \<open>allocate\<close> returns.
\<close>

record 'l identity =
  ID :: NumericIdentity
  Labels :: 'l
  CIDRLabel :: 'l

text \<open>\<open>source.Source\<close>: only \<open>source.Generated\<close> is used here.\<close>

datatype Source = Generated | OtherSource string

text \<open>\<open>ipcache.Identity\<close>, the value stored in the cache for a prefix.\<close>

record ipcache_Identity =
  ipc_ID :: NumericIdentity
  ipc_Source :: Source

text \<open>
  What \<open>IdentityAllocator.AllocateIdentity\<close> returns, \<open>(id, isNew, err)\<close>: with a nil
  error the identity is not nil (the allocator's contract); with an error, the flag is
  still returned.
\<close>

datatype 'l allocated = Allocated "'l identity" bool | AllocateFailed bool error

text \<open>Log lines, by level and message (the structured fields are left out).\<close>

datatype log_entry = LogError string | LogWarning string

text \<open>Run-time panics of Go that the code could raise.\<close>

datatype go_panic = IndexOutOfRange | NilPointerDereference

text \<open>
  The parameters: \<open>'p\<close> is a non-nil \<open>*net.IPNet\<close>. Of \<open>Upsert\<close> only the
  arguments that vary are kept (the source always passes \<open>nil, 0, nil\<close> for the host IP,
  the encryption key and the Kubernetes metadata), and its results are dropped as the
  source drops them. The context arguments and the \<open>notifyOwner = false\<close> flag are left
  out as well. Lookups do not change the allocator.
\<close>

record ('p, 'l, 'a, 'c, 'q) deps =
  IPNet_String :: "'p \<Rightarrow> string"
  IPNet_IP_String :: "'p \<Rightarrow> string"
  ParseCIDR :: "string \<Rightarrow> error + 'p"
  GetCIDRLabels :: "'p \<Rightarrow> 'l"
  MergeLabels :: "'l \<Rightarrow> 'l \<Rightarrow> 'l"
  metadata_getLocked :: "string \<Rightarrow> 'l"
  Has_LabelWorld :: "'l \<Rightarrow> bool"
  NewLabelsFromModel :: "string list \<Rightarrow> 'l"
  Labels_String :: "'l \<Rightarrow> string"
  LabelSourceCIDR :: string
  InvalidIdentity :: NumericIdentity
  AllocateIdentity :: "'l \<Rightarrow> NumericIdentity \<Rightarrow> 'a \<Rightarrow> 'l allocated \<times> 'a"
  Release :: "'l identity \<Rightarrow> 'a \<Rightarrow> (bool \<times> error option) \<times> 'a"
  ReleaseSlice :: "'l identity list \<Rightarrow> 'a \<Rightarrow> error option \<times> 'a"
  LookupIdentity :: "'l \<Rightarrow> 'a \<Rightarrow> 'l identity option"
  LookupIdentityByID :: "NumericIdentity \<Rightarrow> 'a \<Rightarrow> 'l identity option"
  Upsert :: "string \<Rightarrow> ipcache_Identity \<Rightarrow> 'c \<Rightarrow> 'c"
  deleteLocked :: "string \<Rightarrow> Source \<Rightarrow> 'c \<Rightarrow> 'c"
  LookupByIPRLocked :: "string \<Rightarrow> 'c \<Rightarrow> ipcache_Identity option"
  enqueue :: "string list \<Rightarrow> string \<Rightarrow> 'q \<Rightarrow> 'q"

text \<open>
  The state the functions act on: the allocator, the cache, the deferred release queue,
  the counter \<open>ipcache_errors_total{type="recover", error="unexpected"}\<close> and the log.
\<close>

record ('a, 'c, 'q) world =
  alloc :: 'a
  cache :: 'c
  queue :: 'q
  recover_unexpected :: nat
  logs :: "log_entry list"

subsection \<open>Go maps and their iteration order\<close>

text \<open>
  A \<open>map[string]*identity.Identity\<close> is an association list with one pair per key
  (\<open>AList.update\<close> overwrites in place or appends). Go leaves the order of
  \<open>range\<close> over a map unspecified: \<open>go_range ks m\<close> visits \<open>m\<close> in the order the
  choices \<open>ks\<close> select (the next entry is the one at position \<open>k mod length\<close> of those
  not yet visited). Every order is the order of some \<open>ks\<close> (lemma
  \<open>go_range_any_order\<close>), and every \<open>ks\<close> visits each entry once (lemma
  \<open>go_range_mset\<close>). The functions that range over a map take the choices as arguments.
\<close>

type_synonym 'l idmap = "(string \<times> 'l identity) list"

fun go_range :: "nat list \<Rightarrow> 'x list \<Rightarrow> 'x list" where
  "go_range ks [] = []"
| "go_range [] (x # xs) = x # xs"
| "go_range (k # ks) (x # xs) =
     (let i = k mod Suc (length xs)
      in (x # xs) ! i # go_range ks (take i (x # xs) @ drop (Suc i) (x # xs)))"

subsection \<open>Strings and slices of Go\<close>

definition strings_HasPrefix :: "string \<Rightarrow> string \<Rightarrow> bool" where
  "strings_HasPrefix s pre = (take (length pre) s = pre)"

definition strings_TrimPrefix :: "string \<Rightarrow> string \<Rightarrow> string" where
  "strings_TrimPrefix s pre = (if strings_HasPrefix s pre then drop (length pre) s else s)"

text \<open>\<open>xs[i]\<close>: a panic out of range.\<close>

definition slice_index :: "'x list \<Rightarrow> nat \<Rightarrow> go_panic + 'x" where
  "slice_index xs i = (if i < length xs then Inr (xs ! i) else Inl IndexOutOfRange)"

subsection \<open>cidrLabelToPrefix\<close>

definition cidrLabelToPrefix ::
  "('p, 'l, 'a, 'c, 'q) deps \<Rightarrow> string \<Rightarrow> string \<times> bool" where
  "cidrLabelToPrefix d label =
     (if \<not> strings_HasPrefix label (LabelSourceCIDR d) then ('''', False)
      else (strings_TrimPrefix label (LabelSourceCIDR d @ '':''), True))"

subsection \<open>UpsertGeneratedIdentities\<close>

definition upsert_generated ::
  "('p, 'l, 'a, 'c, 'q) deps \<Rightarrow> 'c \<Rightarrow> string \<times> 'l identity \<Rightarrow> 'c" where
  "upsert_generated d c e =
     Upsert d (fst e) \<lparr>ipc_ID = ID (snd e), ipc_Source = Generated\<rparr> c"

text \<open>
  The loop over \<open>usedIdentities\<close> (under the read lock): it fills \<open>toUpsert\<close> and
  logs; the cache is only read.
\<close>

fun used_loop ::
  "('p, 'l, 'a, 'c, 'q) deps \<Rightarrow> 'c \<Rightarrow> 'l identity list \<Rightarrow> 'l idmap \<Rightarrow> log_entry list
     \<Rightarrow> 'l idmap \<times> log_entry list" where
  "used_loop d c [] toUpsert lg = (toUpsert, lg)"
| "used_loop d c (i # is) toUpsert lg =
     (case cidrLabelToPrefix d (Labels_String d (CIDRLabel i)) of
        (prefix, ok) \<Rightarrow>
          if \<not> ok then
            used_loop d c is toUpsert
              (lg @ [LogWarning ''BUG: Attempting to upsert non-CIDR identity''])
          else (case LookupByIPRLocked d prefix c of
                  Some _ \<Rightarrow> used_loop d c is toUpsert lg
                | None \<Rightarrow> used_loop d c is (AList.update prefix i toUpsert) lg))"

definition recover_upsert ::
  "('p, 'l, 'a, 'c, 'q) deps \<Rightarrow> ('a, 'c, 'q) world \<Rightarrow> string \<times> 'l identity
     \<Rightarrow> ('a, 'c, 'q) world" where
  "recover_upsert d w e =
     w\<lparr>recover_unexpected := Suc (recover_unexpected w),
       cache := upsert_generated d (cache w) e\<rparr>"

definition UpsertGeneratedIdentities ::
  "('p, 'l, 'a, 'c, 'q) deps \<Rightarrow> nat list \<Rightarrow> nat list \<Rightarrow> 'l idmap \<Rightarrow> 'l identity list
     \<Rightarrow> ('a, 'c, 'q) world \<Rightarrow> ('a, 'c, 'q) world" where
  "UpsertGeneratedIdentities d ks1 ks2 newlyAllocatedIdentities usedIdentities w =
     (let w1 = w\<lparr>cache := foldl (upsert_generated d) (cache w)
                                (go_range ks1 newlyAllocatedIdentities)\<rparr>
      in if length usedIdentities = 0 then w1
         else (case used_loop d (cache w1) usedIdentities [] (logs w1) of
                 (toUpsert, lg) \<Rightarrow>
                   foldl (recover_upsert d) (w1\<lparr>logs := lg\<rparr>) (go_range ks2 toUpsert)))"

subsection \<open>allocate\<close>

definition allocate ::
  "('p, 'l, 'a, 'c, 'q) deps \<Rightarrow> 'p option \<Rightarrow> 'l \<Rightarrow> NumericIdentity \<Rightarrow> 'a
     \<Rightarrow> ('l identity option \<times> bool \<times> error option) \<times> 'a" where
  "allocate d prefix lbls oldNID a =
     (case prefix of
        None \<Rightarrow> ((None, False, None), a)
      | Some p \<Rightarrow>
          (case AllocateIdentity d lbls oldNID a of
             (AllocateFailed isNew err, a') \<Rightarrow>
               ((None, isNew,
                 Some (''failed to allocate identity for cidr '' @ IPNet_String d p
                         @ '': '' @ err)), a')
           | (Allocated i isNew, a') \<Rightarrow>
               ((Some (if Has_LabelWorld d lbls
                       then i\<lparr>CIDRLabel :=
                              NewLabelsFromModel d [LabelSourceCIDR d @ '':'' @ IPNet_String d p]\<rparr>
                       else i),
                 isNew, None), a')))"

subsection \<open>AllocateCIDRs\<close>

text \<open>The hint for the prefix at index \<open>i\<close> (lines 61 to 64).\<close>

definition oldNID_hint ::
  "('p, 'l, 'a, 'c, 'q) deps \<Rightarrow> NumericIdentity list option \<Rightarrow> nat
     \<Rightarrow> go_panic + NumericIdentity" where
  "oldNID_hint d oldNIDs i =
     (case oldNIDs of
        None \<Rightarrow> Inr (InvalidIdentity d)
      | Some ns \<Rightarrow> if length ns > i then slice_index ns i else Inr (InvalidIdentity d))"

text \<open>
  How the loop over the prefixes ends: with an error, after the rollback (the allocator
  after \<open>ReleaseSlice\<close> and the caller's map as it stands), or with all prefixes done
  (\<open>usedIdentities\<close>, \<open>allocatedIdentities\<close>, \<open>newlyAllocatedIdentities\<close> and the
  allocator).
\<close>

datatype ('l, 'a) loop_exit =
    Failed error 'a "'l idmap"
  | Completed "'l identity list" "'l idmap" "'l idmap" 'a

text \<open>
  The loop, at index \<open>i\<close>. \<open>allocate\<close> returns a nil identity with a nil error for a
  nil prefix only, and the loop has skipped those; the model panics there, since nothing
  but identities proper can be stored.
\<close>

fun AllocateCIDRs_loop ::
  "('p, 'l, 'a, 'c, 'q) deps \<Rightarrow> NumericIdentity list option \<Rightarrow> nat \<Rightarrow> 'p option list
     \<Rightarrow> 'l identity list \<Rightarrow> 'l idmap \<Rightarrow> 'l idmap \<Rightarrow> 'a \<Rightarrow> go_panic + ('l, 'a) loop_exit" where
  "AllocateCIDRs_loop d oldNIDs i [] used allocd newly a = Inr (Completed used allocd newly a)"
| "AllocateCIDRs_loop d oldNIDs i (None # ps) used allocd newly a =
     AllocateCIDRs_loop d oldNIDs (Suc i) ps used allocd newly a"
| "AllocateCIDRs_loop d oldNIDs i (Some p # ps) used allocd newly a =
     (let lbls = MergeLabels d (GetCIDRLabels d p) (metadata_getLocked d (IPNet_IP_String d p))
      in case oldNID_hint d oldNIDs i of
           Inl pn \<Rightarrow> Inl pn
         | Inr oldNID \<Rightarrow>
             (case allocate d (Some p) lbls oldNID a of
                ((_, _, Some err), a') \<Rightarrow> Inr (Failed err (snd (ReleaseSlice d used a')) newly)
              | ((None, _, None), a') \<Rightarrow> Inl NilPointerDereference
              | ((Some ident, isNew, None), a') \<Rightarrow>
                  (let prefixStr = IPNet_String d p
                   in AllocateCIDRs_loop d oldNIDs (Suc i) ps (used @ [ident])
                        (AList.update prefixStr ident allocd)
                        (if isNew then AList.update prefixStr ident newly else newly) a')))"

text \<open>
  \<open>AllocateCIDRs\<close>: the result is the Go pair (identities or nil, error or nil), the
  caller's map after the call (\<open>None\<close> when the caller passed nil) and the new state.
\<close>

definition AllocateCIDRs ::
  "('p, 'l, 'a, 'c, 'q) deps \<Rightarrow> nat list \<Rightarrow> nat list \<Rightarrow> 'p option list
     \<Rightarrow> NumericIdentity list option \<Rightarrow> 'l idmap option \<Rightarrow> ('a, 'c, 'q) world
     \<Rightarrow> go_panic + (('l identity list option \<times> error option) \<times> 'l idmap option
                      \<times> ('a, 'c, 'q) world)" where
  "AllocateCIDRs d ks1 ks2 prefixes oldNIDs newlyAllocatedIdentities w =
     (let upsert = (newlyAllocatedIdentities = None);
          newly0 = (case newlyAllocatedIdentities of None \<Rightarrow> [] | Some m \<Rightarrow> m)
      in case AllocateCIDRs_loop d oldNIDs 0 prefixes [] [] newly0 (alloc w) of
           Inl pn \<Rightarrow> Inl pn
         | Inr (Failed err a newly) \<Rightarrow>
             Inr ((None, Some err), (if upsert then None else Some newly), w\<lparr>alloc := a\<rparr>)
         | Inr (Completed used allocd newly a) \<Rightarrow>
             (let w1 = w\<lparr>alloc := a\<rparr>;
                  w2 = (if upsert then UpsertGeneratedIdentities d ks1 [] newly [] w1 else w1)
              in Inr ((Some (map snd (go_range ks2 allocd)), None),
                      (if upsert then None else Some newly), w2)))"

subsection \<open>releaseCIDRIdentities\<close>

text \<open>One round of the loop: the state is \<open>toDelete\<close>, the allocator and the log.\<close>

definition release_step ::
  "('p, 'l, 'a, 'c, 'q) deps \<Rightarrow> string list \<times> 'a \<times> log_entry list \<Rightarrow> string
     \<Rightarrow> string list \<times> 'a \<times> log_entry list" where
  "release_step d st prefix =
     (case st of (toDelete, a, lg) \<Rightarrow>
        (case ParseCIDR d prefix of
           Inl err \<Rightarrow>
             (toDelete, a, lg @ [LogError ''Unable to parse CIDR during ipcache release''])
         | Inr c \<Rightarrow>
             (case LookupIdentity d (GetCIDRLabels d c) a of
                None \<Rightarrow>
                  (toDelete, a,
                   lg @ [LogError ''Unable to find identity of previously used CIDR''])
              | Some i \<Rightarrow>
                  (case Release d i a of
                     ((released, err), a') \<Rightarrow>
                       (if released then toDelete @ [prefix] else toDelete, a',
                        if err \<noteq> None
                        then lg @ [LogWarning
                          ''Unable to release CIDR identity. Ignoring error. Identity may be leaked'']
                        else lg)))))"

definition releaseCIDRIdentities ::
  "('p, 'l, 'a, 'c, 'q) deps \<Rightarrow> string list \<Rightarrow> ('a, 'c, 'q) world \<Rightarrow> ('a, 'c, 'q) world" where
  "releaseCIDRIdentities d prefixes w =
     (case foldl (release_step d) ([], alloc w, logs w) prefixes of
        (toDelete, a, lg) \<Rightarrow>
          w\<lparr>alloc := a, logs := lg,
            cache := foldl (\<lambda>c prefix. deleteLocked d prefix Generated c) (cache w) toDelete\<rparr>)"

subsection \<open>ReleaseCIDRIdentitiesByID\<close>

definition byID_step ::
  "('p, 'l, 'a, 'c, 'q) deps \<Rightarrow> 'a \<Rightarrow> string list \<times> log_entry list \<Rightarrow> NumericIdentity
     \<Rightarrow> string list \<times> log_entry list" where
  "byID_step d a st nid =
     (case st of (prefixes, lg) \<Rightarrow>
        (case LookupIdentityByID d nid a of
           Some i \<Rightarrow>
             (case cidrLabelToPrefix d (Labels_String d (CIDRLabel i)) of
                (prefix, ok) \<Rightarrow>
                  if \<not> ok then
                    (prefixes, lg @ [LogWarning
                       ''Unexpected release of non-CIDR identity, will leak this identity. Please report this issue to the developers.''])
                  else (prefixes @ [prefix], lg))
         | None \<Rightarrow>
             (prefixes, lg @ [LogWarning
                ''Unexpected release of numeric identity that is no longer allocated''])))"

definition ReleaseCIDRIdentitiesByID ::
  "('p, 'l, 'a, 'c, 'q) deps \<Rightarrow> NumericIdentity list \<Rightarrow> ('a, 'c, 'q) world
     \<Rightarrow> ('a, 'c, 'q) world" where
  "ReleaseCIDRIdentitiesByID d identities w =
     (case foldl (byID_step d (alloc w)) ([], logs w) identities of
        (prefixes, lg) \<Rightarrow>
          w\<lparr>logs := lg, queue := enqueue d prefixes ''selector-prefix-release'' (queue w)\<rparr>)"

subsection \<open>Reference points of the specification\<close>


text \<open>A slice without its entry at index \<open>n\<close> (unchanged when it has none).\<close>

definition drop_index :: "nat \<Rightarrow> 'x list \<Rightarrow> 'x list" where
  "drop_index n xs = take n xs @ drop (Suc n) xs"

subsection \<open>The allocations of a call\<close>

text \<open>
  The answers of the allocator during the loop of \<open>AllocateCIDRs\<close>, in order and up to
  the first failure: for each non-nil prefix its string, the identity \<open>allocate\<close>
  returned and the \<open>isNew\<close> flag. The allocator is threaded as the loop threads it.
\<close>

fun allocations ::
  "('p, 'l, 'a, 'c, 'q) deps \<Rightarrow> NumericIdentity list option \<Rightarrow> nat \<Rightarrow> 'p option list \<Rightarrow> 'a
     \<Rightarrow> (string \<times> 'l identity \<times> bool) list" where
  "allocations d oldNIDs i [] a = []"
| "allocations d oldNIDs i (None # ps) a = allocations d oldNIDs (Suc i) ps a"
| "allocations d oldNIDs i (Some p # ps) a =
     (case oldNID_hint d oldNIDs i of
        Inl pn \<Rightarrow> []
      | Inr oldNID \<Rightarrow>
          (case allocate d (Some p)
                  (MergeLabels d (GetCIDRLabels d p) (metadata_getLocked d (IPNet_IP_String d p)))
                  oldNID a of
             ((Some ident, isNew, None), a') \<Rightarrow>
               (IPNet_String d p, ident, isNew) # allocations d oldNIDs (Suc i) ps a'
           | _ \<Rightarrow> []))"

text \<open>
  Storing a sequence of allocations into a map, as the loop does for
  \<open>allocatedIdentities\<close> (every allocation) and \<open>newlyAllocatedIdentities\<close> (the new
  ones).
\<close>

definition store_all :: "'l idmap \<Rightarrow> (string \<times> 'l identity \<times> bool) list \<Rightarrow> 'l idmap" where
  "store_all m T = foldl (\<lambda>m (s, i, b). AList.update s i m) m T"

definition store_new :: "'l idmap \<Rightarrow> (string \<times> 'l identity \<times> bool) list \<Rightarrow> 'l idmap" where
  "store_new m T = foldl (\<lambda>m (s, i, b). if b then AList.update s i m else m) m T"

text \<open>The identity most recently reported new for a prefix string.\<close>

definition last_new :: "(string \<times> 'l identity \<times> bool) list \<Rightarrow> string \<Rightarrow> 'l identity option" where
  "last_new T s =
     (case filter (\<lambda>(s', i, b). s' = s \<and> b) T of
        [] \<Rightarrow> None
      | x # xs \<Rightarrow> Some (fst (snd (last (x # xs)))))"

text \<open>The identity most recently allocated for a prefix string, new or not.\<close>

definition last_allocated :: "(string \<times> 'l identity \<times> bool) list \<Rightarrow> string \<Rightarrow> 'l identity option" where
  "last_allocated T s =
     (case filter (\<lambda>(s', i, b). s' = s) T of
        [] \<Rightarrow> None
      | x # xs \<Rightarrow> Some (fst (snd (last (x # xs)))))"

subsection \<open>A small instance\<close>

text \<open>
  An allocator that counts references per label set and has a bounded supply of
  identities, a cache as an association list (\<open>deleteLocked\<close> removes an entry of
  the given source) and a queue as the list of enqueued batches. The theorems with
  hypotheses are instantiated on it.
\<close>

type_synonym demo_labels = "string list"
type_synonym demo_alloc = "nat \<times> (demo_labels \<times> NumericIdentity \<times> nat) list"
type_synonym demo_cache = "(string \<times> ipcache_Identity) list"
type_synonym demo_queue = "(string list \<times> string) list"

definition demo_identity :: "demo_labels \<Rightarrow> NumericIdentity \<Rightarrow> demo_labels identity" where
  "demo_identity lbls n =
     \<lparr>ID = n, Labels = lbls, CIDRLabel = filter (\<lambda>l. strings_HasPrefix l ''cidr:'') lbls\<rparr>"

definition demo_AllocateIdentity ::
  "demo_labels \<Rightarrow> NumericIdentity \<Rightarrow> demo_alloc \<Rightarrow> demo_labels allocated \<times> demo_alloc" where
  "demo_AllocateIdentity lbls oldNID a =
     (case a of (free, es) \<Rightarrow>
        (case find (\<lambda>e. fst e = lbls) es of
           Some (l, n, rc) \<Rightarrow>
             (Allocated (demo_identity l n) False,
              (free, map (\<lambda>(l', n', rc'). if l' = lbls then (l', n', Suc rc') else (l', n', rc')) es))
         | None \<Rightarrow>
             if free = 0 then (AllocateFailed False ''no more available identities'', a)
             else (let n = (if oldNID \<noteq> 0 \<and> oldNID \<notin> set (map (\<lambda>(l', n', rc'). n') es)
                            then oldNID else 256 + of_nat (length es))
                   in (Allocated (demo_identity lbls n) True, (free - 1, es @ [(lbls, n, 1)])))))"

definition demo_Release ::
  "demo_labels identity \<Rightarrow> demo_alloc \<Rightarrow> (bool \<times> error option) \<times> demo_alloc" where
  "demo_Release i a =
     (case a of (free, es) \<Rightarrow>
        (case find (\<lambda>(l, n, rc). n = ID i) es of
           None \<Rightarrow> ((False, Some ''identity not found''), a)
         | Some (l, n, rc) \<Rightarrow>
             if rc > 1
             then ((False, None),
                   (free, map (\<lambda>(l', n', rc'). if n' = ID i then (l', n', rc' - 1) else (l', n', rc')) es))
             else ((True, None), (Suc free, filter (\<lambda>(l', n', rc'). n' \<noteq> ID i) es))))"

definition demo_ReleaseSlice ::
  "demo_labels identity list \<Rightarrow> demo_alloc \<Rightarrow> error option \<times> demo_alloc" where
  "demo_ReleaseSlice is a =
     foldl (\<lambda>(err, a) i. case demo_Release i a of
                            ((released, e), a') \<Rightarrow> (if e = None then err else e, a'))
       (None, a) is"

definition demo_deps ::
  "(string, demo_labels, demo_alloc, demo_cache, demo_queue) deps" where
  "demo_deps =
     \<lparr>IPNet_String = (\<lambda>p. p),
      IPNet_IP_String = takeWhile (\<lambda>c. c \<noteq> CHR ''/''),
      ParseCIDR = (\<lambda>s. if CHR ''/'' \<in> set s then Inr s else Inl (''invalid CIDR address: '' @ s)),
      GetCIDRLabels = (\<lambda>p. [''cidr:'' @ p, ''reserved:world'']),
      MergeLabels = (\<lambda>l m. l @ filter (\<lambda>x. x \<notin> set l) m),
      metadata_getLocked = (\<lambda>ip. []),
      Has_LabelWorld = (\<lambda>l. ''reserved:world'' \<in> set l),
      NewLabelsFromModel = (\<lambda>ls. ls),
      Labels_String = (\<lambda>l. case l of [] \<Rightarrow> [] | x # xs \<Rightarrow> foldl (\<lambda>s y. s @ '','' @ y) x xs),
      LabelSourceCIDR = ''cidr'',
      InvalidIdentity = 0,
      AllocateIdentity = demo_AllocateIdentity,
      Release = demo_Release,
      ReleaseSlice = demo_ReleaseSlice,
      LookupIdentity =
        (\<lambda>lbls a. map_option (\<lambda>(l, n, rc). demo_identity l n) (find (\<lambda>e. fst e = lbls) (snd a))),
      LookupIdentityByID =
        (\<lambda>nid a. map_option (\<lambda>(l, n, rc). demo_identity l n) (find (\<lambda>(l, n, rc). n = nid) (snd a))),
      Upsert = (\<lambda>prefix v c. AList.update prefix v c),
      deleteLocked =
        (\<lambda>prefix src c. case map_of c prefix of
                           None \<Rightarrow> c
                         | Some v \<Rightarrow> if ipc_Source v = src then AList.delete prefix c else c),
      LookupByIPRLocked = (\<lambda>prefix c. map_of c prefix),
      enqueue = (\<lambda>prefixes reason q. q @ [(prefixes, reason)])\<rparr>"

definition demo_world :: "nat \<Rightarrow> (demo_alloc, demo_cache, demo_queue) world" where
  "demo_world free = \<lparr>alloc = (free, []), cache = [], queue = [], recover_unexpected = 0, logs = []\<rparr>"


definition demo_cidr_identity :: "string \<Rightarrow> NumericIdentity \<Rightarrow> demo_labels identity" where
  "demo_cidr_identity p n = demo_identity [''cidr:'' @ p, ''reserved:world''] n"

definition demo_generated :: "NumericIdentity \<Rightarrow> ipcache_Identity" where
  "demo_generated n = \<lparr>ipc_ID = n, ipc_Source = Generated\<rparr>"

definition demo_world_ok :: "(demo_alloc, demo_cache, demo_queue) world" where
  "demo_world_ok =
     \<lparr>alloc = (3, [([''cidr:10.0.0.0/24'', ''reserved:world''], 700, 2),
                   ([''cidr:10.0.1.0/24'', ''reserved:world''], 257, 1)]),
      cache = [(''10.0.0.0/24'', demo_generated 700), (''10.0.1.0/24'', demo_generated 257)],
      queue = [], recover_unexpected = 0, logs = []\<rparr>"


subsection \<open>Reference points of the release paths\<close>

text \<open>
  What the allocator answers, in the state \<open>a\<close>, when the release transaction reaches a
  prefix: whether \<open>Release\<close>, called for the identity of the prefix, reports that the
  last reference is gone. There is no such answer when the prefix does not parse or has no
  identity.
\<close>

definition last_reference_released ::
  "('p, 'l, 'a, 'c, 'q) deps \<Rightarrow> string \<Rightarrow> 'a \<Rightarrow> bool" where
  "last_reference_released d prefix a =
     (case ParseCIDR d prefix of
        Inl err \<Rightarrow> False
      | Inr c \<Rightarrow>
          (case LookupIdentity d (GetCIDRLabels d c) a of
             None \<Rightarrow> False
           | Some i \<Rightarrow> fst (fst (Release d i a))))"

text \<open>
  The positions of a batch at which that answer is given, the allocator being the one left
  by the prefixes before the position.
\<close>

definition released_positions ::
  "('p, 'l, 'a, 'c, 'q) deps \<Rightarrow> string list \<Rightarrow> ('a, 'c, 'q) world \<Rightarrow> nat list" where
  "released_positions d prefixes w =
     filter (\<lambda>k. last_reference_released d (prefixes ! k)
                   (alloc (releaseCIDRIdentities d (take k prefixes) w)))
       [0..<length prefixes]"

text \<open>
  The prefix a numeric identity resolves to, in the words of the interface: the allocator
  still knows the identity, and its CIDR label is a label of the source \<open>cidr\<close>,
  whose text after \<open>cidr:\<close> is the prefix.
\<close>

definition resolve_prefix ::
  "('p, 'l, 'a, 'c, 'q) deps \<Rightarrow> 'a \<Rightarrow> NumericIdentity \<Rightarrow> string option" where
  "resolve_prefix d a nid =
     (case LookupIdentityByID d nid a of
        None \<Rightarrow> None
      | Some i \<Rightarrow>
          if strings_HasPrefix (Labels_String d (CIDRLabel i)) (LabelSourceCIDR d)
          then Some (strings_TrimPrefix (Labels_String d (CIDRLabel i)) (LabelSourceCIDR d @ '':''))
          else None)"

text \<open>The prefix of an identity, by its CIDR label.\<close>

definition cidr_prefix_of ::
  "('p, 'l, 'a, 'c, 'q) deps \<Rightarrow> 'l identity \<Rightarrow> string \<times> bool" where
  "cidr_prefix_of d i = cidrLabelToPrefix d (Labels_String d (CIDRLabel i))"

subsection \<open>More of the small instance\<close>

text \<open>
  The state after one allocation of \<open>10.0.0.0/24\<close>, and an allocator whose
  \<open>Release\<close> fails.
\<close>

definition demo_world_one :: "(demo_alloc, demo_cache, demo_queue) world" where
  "demo_world_one =
     \<lparr>alloc = (4, [([''cidr:10.0.0.0/24'', ''reserved:world''], 256, 1)]),
      cache = [(''10.0.0.0/24'', demo_generated 256)],
      queue = [], recover_unexpected = 0, logs = []\<rparr>"

definition demo_deps_release_error ::
  "(string, demo_labels, demo_alloc, demo_cache, demo_queue) deps" where
  "demo_deps_release_error =
     demo_deps\<lparr>Release := (\<lambda>i a. ((False, Some ''kvstore unavailable''), a))\<rparr>"

text \<open>
  The same state with the cache entry lost while the identity is still held, a list of
  used identities (the CIDR identity twice, and one that is no CIDR identity), and a state
  in which the allocator also holds that other identity.
\<close>

definition demo_world_lost :: "(demo_alloc, demo_cache, demo_queue) world" where
  "demo_world_lost = demo_world_one\<lparr>cache := []\<rparr>"

definition demo_used :: "demo_labels identity list" where
  "demo_used =
     [demo_cidr_identity ''10.0.0.0/24'' 256, demo_cidr_identity ''10.0.0.0/24'' 256,
      demo_identity [''k8s:app=web''] 300]"

definition demo_world_mixed :: "(demo_alloc, demo_cache, demo_queue) world" where
  "demo_world_mixed =
     \<lparr>alloc = (3, [([''cidr:10.0.0.0/24'', ''reserved:world''], 256, 1),
                   ([''k8s:app=web''], 300, 1)]),
      cache = [(''10.0.0.0/24'', demo_generated 256)],
      queue = [], recover_unexpected = 0, logs = []\<rparr>"
section \<open>Basic facts\<close>

subsection \<open>Iteration over a map visits every entry once\<close>

lemma go_range_mset: "mset (go_range ks xs) = mset xs"
proof (induction ks xs rule: go_range.induct)
  case (3 k ks x xs)
  define ys where "ys = x # xs"
  define i where "i = k mod Suc (length xs)"
  have i: "i < length ys" by (simp add: i_def ys_def)
  have IH: "mset (go_range ks (take i ys @ drop (Suc i) ys)) = mset (take i ys @ drop (Suc i) ys)"
    using 3 by (simp add: i_def ys_def)
  have "go_range (k # ks) (x # xs) = ys ! i # go_range ks (take i ys @ drop (Suc i) ys)"
    by (simp add: i_def ys_def Let_def)
  then have "mset (go_range (k # ks) (x # xs)) = mset (take i ys @ ys ! i # drop (Suc i) ys)"
    using IH by simp
  also have "\<dots> = mset ys" using id_take_nth_drop[OF i] by simp
  finally show ?case by (simp add: ys_def)
qed simp_all

lemma go_range_any_order: "mset ys = mset xs \<Longrightarrow> \<exists>ks. go_range ks xs = ys"
proof (induction ys arbitrary: xs)
  case Nil
  then show ?case by simp
next
  case (Cons y ys)
  have "y \<in> set xs" using Cons.prems by (metis list.set_intros(1) mset_eq_setD)
  then obtain i where i: "i < length xs" and y: "xs ! i = y" by (auto simp: in_set_conv_nth)
  define rest where "rest = take i xs @ drop (Suc i) xs"
  have "mset xs = add_mset y (mset rest)"
    using id_take_nth_drop[OF i] y by (metis rest_def mset.simps(2) mset_append union_mset_add_mset_right)
  then have "mset ys = mset rest" using Cons.prems by simp
  then obtain ks where ks: "go_range ks rest = ys" using Cons.IH by blast
  obtain x xs' where xs: "xs = x # xs'" using i by (cases xs) auto
  have "go_range (i # ks) xs = y # ys"
    using i y ks by (simp add: xs rest_def Let_def)
  then show ?case by blast
qed

subsection \<open>The hint and the allocation of one prefix\<close>

lemma oldNID_hint_Inr:
  "oldNID_hint d oldNIDs i =
     Inr (case oldNIDs of None \<Rightarrow> InvalidIdentity d
          | Some ns \<Rightarrow> if i < length ns then ns ! i else InvalidIdentity d)"
  by (simp add: oldNID_hint_def slice_index_def split: option.splits)

lemma allocate_Some:
  "allocate d (Some p) lbls h a =
     (case AllocateIdentity d lbls h a of
        (AllocateFailed isNew err, a') \<Rightarrow>
          ((None, isNew,
            Some (''failed to allocate identity for cidr '' @ IPNet_String d p @ '': '' @ err)), a')
      | (Allocated i isNew, a') \<Rightarrow>
          ((Some (if Has_LabelWorld d lbls
                  then i\<lparr>CIDRLabel :=
                         NewLabelsFromModel d [LabelSourceCIDR d @ '':'' @ IPNet_String d p]\<rparr>
                  else i), isNew, None), a'))"
  by (simp add: allocate_def)

text \<open>The loop reads \<open>oldNIDs\<close> through the hints only.\<close>

lemma loop_hint_cong:
  "(\<And>j. oldNID_hint d o1 (i1 + j) = oldNID_hint d o2 (i2 + j)) \<Longrightarrow>
   AllocateCIDRs_loop d o1 i1 ps used allocd newly a =
   AllocateCIDRs_loop d o2 i2 ps used allocd newly a"
proof (induction ps arbitrary: i1 i2 used allocd newly a)
  case Nil
  then show ?case by simp
next
  case (Cons x ps)
  have h0: "oldNID_hint d o1 i1 = oldNID_hint d o2 i2" using Cons.prems[of 0] by simp
  have hs: "\<And>j. oldNID_hint d o1 (Suc i1 + j) = oldNID_hint d o2 (Suc i2 + j)"
    using Cons.prems[of "Suc _"] by simp
  show ?case
  proof (cases x)
    case None
    then show ?thesis using Cons.IH[OF hs] by simp
  next
    case (Some p)
    then show ?thesis using Cons.IH[OF hs] h0
      by (simp add: Let_def split: sum.splits prod.splits option.splits)
  qed
qed


subsection \<open>No panic\<close>

lemma loop_no_panic:
  "\<exists>e. AllocateCIDRs_loop d oldNIDs i ps used allocd newly a = Inr e"
proof (induction ps arbitrary: i used allocd newly a)
  case Nil
  then show ?case by simp
next
  case (Cons x ps)
  show ?case
  proof (cases x)
    case None
    then show ?thesis using Cons.IH by simp
  next
    case (Some p)
    then show ?thesis using Cons.IH
      by (simp add: Let_def oldNID_hint_Inr allocate_Some split: prod.splits allocated.splits)
  qed
qed


subsection \<open>Hints of padded and of shortened slices\<close>


lemma hint_drop_index_before:
  "j < n \<Longrightarrow> oldNID_hint d (map_option (drop_index n) oldNIDs) j = oldNID_hint d oldNIDs j"
  by (cases oldNIDs) (auto simp: oldNID_hint_Inr drop_index_def nth_append)

lemma hint_drop_index_after:
  "n \<le> j \<Longrightarrow>
   oldNID_hint d (map_option (drop_index n) oldNIDs) j = oldNID_hint d oldNIDs (Suc j)"
  by (cases oldNIDs) (auto simp: oldNID_hint_Inr drop_index_def nth_append min_def)

lemma loop_skip_nil:
  "AllocateCIDRs_loop d oldNIDs i (pre @ None # post) used allocd newly a =
   AllocateCIDRs_loop d (map_option (drop_index (i + length pre)) oldNIDs) i (pre @ post)
     used allocd newly a"
proof (induction pre arbitrary: i used allocd newly a)
  case Nil
  have "AllocateCIDRs_loop d oldNIDs (Suc i) post used allocd newly a =
        AllocateCIDRs_loop d (map_option (drop_index i) oldNIDs) i post used allocd newly a"
    by (rule loop_hint_cong) (simp add: hint_drop_index_after)
  then show ?case by simp
next
  case (Cons x pre)
  have h: "oldNID_hint d (map_option (drop_index (i + length (x # pre))) oldNIDs) i
         = oldNID_hint d oldNIDs i"
    by (rule hint_drop_index_before) simp
  show ?case
  proof (cases x)
    case None
    then show ?thesis using Cons.IH[of "Suc i"] by simp
  next
    case (Some p)
    then show ?thesis using Cons.IH[of "Suc i"] h
      by (simp add: Let_def split: sum.splits prod.splits option.splits)
  qed
qed

lemma loop_all_nil:
  "AllocateCIDRs_loop d oldNIDs i (replicate n None) used allocd newly a =
   Inr (Completed used allocd newly a)"
  by (induction n arbitrary: i) simp_all

subsection \<open>The loop of AllocateCIDRs and its allocations\<close>

lemma store_all_Cons: "store_all m ((s, i, b) # T) = store_all (AList.update s i m) T"
  by (simp add: store_all_def)

lemma store_new_Cons:
  "store_new m ((s, i, b) # T) = store_new (if b then AList.update s i m else m) T"
  by (simp add: store_new_def)


lemma allocate_Some_shape:
  assumes "allocate d (Some p) lbls h a = ((x, b, e), a1)"
  obtains (fail) err where "x = None" "e = Some err"
        | (ok) ident where "x = Some ident" "e = None"
  using assms by (auto simp: allocate_Some split: prod.splits allocated.splits)

lemma loop_Completed:
  "AllocateCIDRs_loop d oldNIDs i ps used allocd newly a = Inr (Completed used' allocd' newly' a')
   \<Longrightarrow> used' = used @ map (\<lambda>(s, i, b). i) (allocations d oldNIDs i ps a)
     \<and> allocd' = store_all allocd (allocations d oldNIDs i ps a)
     \<and> newly' = store_new newly (allocations d oldNIDs i ps a)
     \<and> fst ` set (allocations d oldNIDs i ps a) = IPNet_String d ` {p. Some p \<in> set ps}"
proof (induction ps arbitrary: i used allocd newly a)
  case Nil
  then show ?case by (simp add: store_all_def store_new_def)
next
  case (Cons x ps)
  show ?case
  proof (cases x)
    case None
    then show ?thesis using Cons.IH[of "Suc i" used allocd newly a] Cons.prems by simp
  next
    case (Some p)
    define lbls where "lbls = MergeLabels d (GetCIDRLabels d p) (metadata_getLocked d (IPNet_IP_String d p))"
    obtain h where h: "oldNID_hint d oldNIDs i = Inr h" by (simp add: oldNID_hint_Inr)
    obtain y b e a1 where al: "allocate d (Some p) lbls h a = ((y, b, e), a1)"
      by (metis prod.exhaust)
    from al show ?thesis
    proof (cases rule: allocate_Some_shape)
      case (fail err)
      then show ?thesis using Cons.prems Some h al by (simp add: lbls_def Let_def)
    next
      case (ok ident)
      have step: "AllocateCIDRs_loop d oldNIDs (Suc i) ps (used @ [ident])
            (AList.update (IPNet_String d p) ident allocd)
            (if b then AList.update (IPNet_String d p) ident newly else newly) a1
          = Inr (Completed used' allocd' newly' a')"
        using Cons.prems Some h al ok by (simp add: lbls_def Let_def)
      have T: "allocations d oldNIDs i (x # ps) a
          = (IPNet_String d p, ident, b) # allocations d oldNIDs (Suc i) ps a1"
        using Some h al ok by (simp add: lbls_def)
      have S: "{q. Some q \<in> set (x # ps)} = insert p {q. Some q \<in> set ps}"
        using Some by auto
      have K: "fst ` set (allocations d oldNIDs i (x # ps) a)
          = insert (IPNet_String d p) (fst ` set (allocations d oldNIDs (Suc i) ps a1))"
        by (simp add: T)
      have S': "IPNet_String d ` {q. Some q \<in> set (x # ps)}
          = insert (IPNet_String d p) (IPNet_String d ` {q. Some q \<in> set ps})"
        by (simp only: S image_insert)
      from Cons.IH[OF step] show ?thesis
        unfolding K S' by (simp add: T store_all_Cons store_new_Cons)
    qed
  qed
qed

lemma update_keys: "fst ` set (AList.update k v m) = insert k (fst ` set m)"
  by (induction m) auto

lemma store_all_distinct: "distinct (map fst m) \<Longrightarrow> distinct (map fst (store_all m T))"
proof (induction T arbitrary: m)
  case Nil
  then show ?case by (simp add: store_all_def)
next
  case (Cons x T)
  obtain s i b where x: "x = (s, i, b)" by (cases x)
  show ?case unfolding x store_all_Cons
    by (rule Cons.IH) (simp add: distinct_update Cons.prems)
qed

lemma store_new_distinct: "distinct (map fst m) \<Longrightarrow> distinct (map fst (store_new m T))"
proof (induction T arbitrary: m)
  case Nil
  then show ?case by (simp add: store_new_def)
next
  case (Cons x T)
  obtain s i b where x: "x = (s, i, b)" by (cases x)
  show ?case unfolding x store_new_Cons
    by (rule Cons.IH) (simp add: distinct_update Cons.prems)
qed

lemma store_all_keys: "fst ` set (store_all m T) = fst ` set m \<union> fst ` set T"
proof (induction T arbitrary: m)
  case Nil
  then show ?case by (simp add: store_all_def)
next
  case (Cons x T)
  obtain s i b where x: "x = (s, i, b)" by (cases x)
  show ?case unfolding x store_all_Cons Cons.IH update_keys by auto
qed

lemma store_new_keys:
  "fst ` set (store_new m T) = fst ` set m \<union> {s. \<exists>i. (s, i, True) \<in> set T}"
proof (induction T arbitrary: m)
  case Nil
  then show ?case by (simp add: store_new_def)
next
  case (Cons x T)
  obtain s i b where x: "x = (s, i, b)" by (cases x)
  show ?case unfolding x store_new_Cons Cons.IH
    by (cases b) (auto simp: update_keys)
qed

lemma store_new_map_of: "map_of (store_new m T) = map_of m ++ last_new T"
proof (induction T arbitrary: m)
  case Nil
  then show ?case by (simp add: store_new_def last_new_def)
next
  case (Cons x T)
  obtain s i b where x: "x = (s, i, b)" by (cases x)
  have "map_of (store_new m (x # T)) = map_of (if b then AList.update s i m else m) ++ last_new T"
    using Cons.IH by (simp add: x store_new_Cons)
  also have "\<dots> = map_of m ++ last_new (x # T)"
    by (rule ext) (auto simp: x last_new_def map_add_def update_conv' split: option.splits list.splits)
  finally show ?case .
qed

lemma store_all_map_of: "map_of (store_all m T) = map_of m ++ last_allocated T"
proof (induction T arbitrary: m)
  case Nil
  then show ?case by (simp add: store_all_def last_allocated_def)
next
  case (Cons x T)
  obtain s i b where x: "x = (s, i, b)" by (cases x)
  have "map_of (store_all m (x # T)) = map_of (AList.update s i m) ++ last_allocated T"
    using Cons.IH by (simp add: x store_all_Cons)
  also have "\<dots> = map_of m ++ last_allocated (x # T)"
    by (rule ext) (auto simp: x last_allocated_def map_add_def update_conv' split: option.splits list.splits)
  finally show ?case .
qed


subsection \<open>Entries and keys under iteration\<close>

lemma go_range_set: "set (go_range ks xs) = set xs"
  using go_range_mset[of ks xs] by (rule mset_eq_setD)

lemma go_range_distinct_keys: "distinct (map fst (go_range ks m)) = distinct (map fst m)"
proof -
  have "mset (map fst (go_range ks m)) = mset (map fst m)"
    using go_range_mset[of ks m] by (metis mset_map)
  then show ?thesis by (rule mset_eq_imp_distinct_iff)
qed

lemma go_range_map_of: "distinct (map fst m) \<Longrightarrow> map_of (go_range ks m) = map_of m"
  by (simp add: map_of_inject_set go_range_distinct_keys go_range_set)

lemma upsert_generated_eq:
  "upsert_generated d = (\<lambda>c (s, i). Upsert d s \<lparr>ipc_ID = ID i, ipc_Source = Generated\<rparr> c)"
  by (rule ext, rule ext) (simp add: upsert_generated_def split: prod.splits)

lemma last_new_dom: "dom (last_new T) = {s. \<exists>i. (s, i, True) \<in> set T}"
proof -
  have "(filter (\<lambda>(s', i, b). s' = s \<and> b) T \<noteq> []) = (\<exists>i. (s, i, True) \<in> set T)" for s
    by (auto simp: filter_empty_conv)
  then show ?thesis
    by (auto simp: last_new_def dom_def split: list.splits)
qed

lemma last_new_Some: "last_new T s = Some i \<Longrightarrow> (s, i, True) \<in> set T"
proof -
  assume a: "last_new T s = Some i"
  define F where "F = filter (\<lambda>(s', i, b). s' = s \<and> b) T"
  have ne: "F \<noteq> []" and i: "i = fst (snd (last F))"
    using a by (auto simp: last_new_def F_def split: list.splits)
  have "last F \<in> set F" using ne by simp
  then have "last F \<in> set T" "fst (last F) = s" "snd (snd (last F))"
    by (auto simp: F_def)
  then show ?thesis using i by (metis prod.collapse)
qed

lemma last_allocated_dom: "dom (last_allocated T) = fst ` set T"
proof -
  have "(filter (\<lambda>(s', i, b). s' = s) T \<noteq> []) = (s \<in> fst ` set T)" for s
    by (force simp: filter_empty_conv)
  then show ?thesis
    by (auto simp: last_allocated_def dom_def split: list.splits)
qed

lemma loop_append:
  "AllocateCIDRs_loop d oldNIDs i pre used allocd newly a = Inr (Completed used' allocd' newly' a')
   \<Longrightarrow> AllocateCIDRs_loop d oldNIDs i (pre @ rest) used allocd newly a
     = AllocateCIDRs_loop d oldNIDs (i + length pre) rest used' allocd' newly' a'"
proof (induction pre arbitrary: i used allocd newly a)
  case Nil
  then show ?case by simp
next
  case (Cons x pre)
  show ?case
  proof (cases x)
    case None
    then show ?thesis using Cons.IH[of "Suc i" used allocd newly a] Cons.prems by simp
  next
    case (Some p)
    define lbls where "lbls = MergeLabels d (GetCIDRLabels d p) (metadata_getLocked d (IPNet_IP_String d p))"
    obtain h where h: "oldNID_hint d oldNIDs i = Inr h" by (simp add: oldNID_hint_Inr)
    obtain y b e a1 where al: "allocate d (Some p) lbls h a = ((y, b, e), a1)"
      by (metis prod.exhaust)
    from al show ?thesis
    proof (cases rule: allocate_Some_shape)
      case (fail err)
      then show ?thesis using Cons.prems Some h al by (simp add: lbls_def Let_def)
    next
      case (ok ident)
      have step: "AllocateCIDRs_loop d oldNIDs (Suc i) pre (used @ [ident])
            (AList.update (IPNet_String d p) ident allocd)
            (if b then AList.update (IPNet_String d p) ident newly else newly) a1
          = Inr (Completed used' allocd' newly' a')"
        using Cons.prems Some h al ok by (simp add: lbls_def Let_def)
      show ?thesis using Cons.IH[OF step] Some h al ok
        by (simp add: lbls_def Let_def)
    qed
  qed
qed

lemma AllocateCIDRs_success:
  assumes "AllocateCIDRs d ks1 ks2 prefixes oldNIDs sink w = Inr ((Some ids, None), sink', w')"
  defines "T \<equiv> allocations d oldNIDs 0 prefixes (alloc w)"
  obtains a where
    "ids = map snd (go_range ks2 (store_all [] T))"
    "fst ` set T = IPNet_String d ` {p. Some p \<in> set prefixes}"
    "sink = None \<Longrightarrow> sink' = None"
    "sink = None \<Longrightarrow> w' = UpsertGeneratedIdentities d ks1 [] (store_new [] T) [] (w\<lparr>alloc := a\<rparr>)"
    "\<And>m. sink = Some m \<Longrightarrow> sink' = Some (store_new m T)"
    "\<And>m. sink = Some m \<Longrightarrow> w' = w\<lparr>alloc := a\<rparr>"
proof -
  define n0 where "n0 = (case sink of None \<Rightarrow> [] | Some m \<Rightarrow> m)"
  have "\<exists>e. AllocateCIDRs_loop d oldNIDs 0 prefixes [] [] n0 (alloc w) = Inr e"
    by (rule loop_no_panic)
  then obtain e where e: "AllocateCIDRs_loop d oldNIDs 0 prefixes [] [] n0 (alloc w) = Inr e" ..
  show thesis
  proof (cases e)
    case (Failed err a nw)
    then show ?thesis using assms(1) e by (simp add: AllocateCIDRs_def n0_def)
  next
    case (Completed used allocd newly a)
    note L = loop_Completed[OF e[unfolded Completed], folded T_def]
    show ?thesis
    proof (rule that[of a])
      show "ids = map snd (go_range ks2 (store_all [] T))"
        using assms(1) e Completed L by (simp add: AllocateCIDRs_def n0_def Let_def)
      show "fst ` set T = IPNet_String d ` {p. Some p \<in> set prefixes}" using L by simp
      show "sink = None \<Longrightarrow> sink' = None"
        using assms(1) e Completed by (simp add: AllocateCIDRs_def n0_def Let_def)
      show "sink = None \<Longrightarrow> w' = UpsertGeneratedIdentities d ks1 [] (store_new [] T) [] (w\<lparr>alloc := a\<rparr>)"
        using assms(1) e Completed L by (simp add: AllocateCIDRs_def n0_def Let_def)
      show "\<And>m. sink = Some m \<Longrightarrow> sink' = Some (store_new m T)"
        using assms(1) e Completed L by (simp add: AllocateCIDRs_def n0_def Let_def)
      show "\<And>m. sink = Some m \<Longrightarrow> w' = w\<lparr>alloc := a\<rparr>"
        using assms(1) e Completed L by (simp add: AllocateCIDRs_def n0_def Let_def)
    qed
  qed
qed

subsection \<open>The release transaction\<close>

lemma release_step_toDelete:
  "fst (release_step d (td, a, lg) p) = td @ (if last_reference_released d p a then [p] else [])"
  by (simp add: release_step_def last_reference_released_def split: sum.splits option.splits prod.splits)

lemma release_step_indep:
  "release_step d (td, a, lg) p =
     (td @ fst (release_step d ([], a, []) p),
      fst (snd (release_step d ([], a, []) p)),
      lg @ snd (snd (release_step d ([], a, []) p)))"
  by (simp add: release_step_def split: sum.splits option.splits prod.splits)

lemma release_loop_indep:
  "foldl (release_step d) (td, a, lg) ps =
     (td @ fst (foldl (release_step d) ([], a, []) ps),
      fst (snd (foldl (release_step d) ([], a, []) ps)),
      lg @ snd (snd (foldl (release_step d) ([], a, []) ps)))"
proof (induction ps rule: rev_induct)
  case Nil
  then show ?case by simp
next
  case (snoc p ps)
  obtain td0 a0 lg0 where r0: "foldl (release_step d) ([], a, []) ps = (td0, a0, lg0)"
    by (metis prod.exhaust)
  show ?case
    using snoc.IH release_step_indep[of d "td @ td0" a0 "lg @ lg0" p]
      release_step_indep[of d td0 a0 lg0 p]
    by (simp add: r0)
qed

lemma release_append:
  "releaseCIDRIdentities d (xs @ ys) w = releaseCIDRIdentities d ys (releaseCIDRIdentities d xs w)"
proof -
  obtain td a lg where r: "foldl (release_step d) ([], alloc w, logs w) xs = (td, a, lg)"
    by (metis prod.exhaust)
  obtain td' a' lg' where r': "foldl (release_step d) ([], a, lg) ys = (td', a', lg')"
    by (metis prod.exhaust)
  have "foldl (release_step d) (td, a, lg) ys = (td @ td', a', lg')"
    using release_loop_indep[of d td a lg ys] release_loop_indep[of d "[]" a lg ys] r'
    by simp
  then show ?thesis
    by (simp add: releaseCIDRIdentities_def r r')
qed

lemma release_single:
  "releaseCIDRIdentities d [p] w =
     (case release_step d ([], alloc w, logs w) p of
        (td, a, lg) \<Rightarrow>
          w\<lparr>alloc := a, logs := lg,
            cache := (if last_reference_released d p (alloc w)
                      then deleteLocked d p Generated (cache w) else cache w)\<rparr>)"
  using release_step_toDelete[of d "[]" "alloc w" "logs w" p]
  by (auto simp: releaseCIDRIdentities_def split: prod.splits)

lemma release_snoc_cache:
  "cache (releaseCIDRIdentities d (ps @ [p]) w) =
     (if last_reference_released d p (alloc (releaseCIDRIdentities d ps w))
      then deleteLocked d p Generated (cache (releaseCIDRIdentities d ps w))
      else cache (releaseCIDRIdentities d ps w))"
  by (simp add: release_append release_single split: prod.splits)

lemma released_positions_snoc:
  "map ((!) (ps @ [p])) (released_positions d (ps @ [p]) w) =
     map ((!) ps) (released_positions d ps w)
     @ (if last_reference_released d p (alloc (releaseCIDRIdentities d ps w)) then [p] else [])"
proof -
  define Q where "Q = (\<lambda>k. last_reference_released d ((ps @ [p]) ! k)
                   (alloc (releaseCIDRIdentities d (take k (ps @ [p])) w)))"
  have r: "released_positions d (ps @ [p]) w = filter Q [0..<length ps] @ filter Q [length ps]"
    by (simp add: released_positions_def Q_def)
  have f: "filter Q [0..<length ps] = released_positions d ps w"
    unfolding released_positions_def
    by (rule filter_cong) (simp_all add: Q_def nth_append)
  have m: "map ((!) (ps @ [p])) (released_positions d ps w) = map ((!) ps) (released_positions d ps w)"
    by (rule map_cong) (simp_all add: released_positions_def nth_append)
  have l: "Q (length ps) = last_reference_released d p (alloc (releaseCIDRIdentities d ps w))"
    by (simp add: Q_def)
  show ?thesis
    unfolding r f by (simp add: m l)
qed

subsection \<open>cidrLabelToPrefix\<close>

lemma cidrLabelToPrefix_ok:
  "snd (cidrLabelToPrefix d l) = strings_HasPrefix l (LabelSourceCIDR d)"
  by (simp add: cidrLabelToPrefix_def)

lemma cidrLabelToPrefix_True:
  "(cidrLabelToPrefix d l = (p, True)) =
     (strings_HasPrefix l (LabelSourceCIDR d) \<and> p = strings_TrimPrefix l (LabelSourceCIDR d @ '':''))"
  by (auto simp: cidrLabelToPrefix_def)

lemma cidrLabelToPrefix_roundtrip:
  "cidrLabelToPrefix d (LabelSourceCIDR d @ '':'' @ s) = (s, True)"
  by (simp add: cidrLabelToPrefix_def strings_HasPrefix_def strings_TrimPrefix_def)

subsection \<open>Release by numeric identity\<close>

lemma byID_loop:
  "foldl (byID_step d a) (ps, lg) ns =
     (ps @ List.map_filter (resolve_prefix d a) ns,
      lg @ List.map_filter
             (\<lambda>nid. case LookupIdentityByID d nid a of
                None \<Rightarrow> Some (LogWarning
                  ''Unexpected release of numeric identity that is no longer allocated'')
              | Some i \<Rightarrow>
                  if strings_HasPrefix (Labels_String d (CIDRLabel i)) (LabelSourceCIDR d) then None
                  else Some (LogWarning
                    ''Unexpected release of non-CIDR identity, will leak this identity. Please report this issue to the developers.''))
             ns)"
proof (induction ns arbitrary: ps lg)
  case Nil
  then show ?case by (simp add: map_filter_simps)
next
  case (Cons n ns)
  show ?case
    unfolding foldl_Cons
    by (cases "LookupIdentityByID d n a")
       (simp_all add: Cons.IH byID_step_def resolve_prefix_def map_filter_simps
          cidrLabelToPrefix_def)
qed

subsection \<open>The loops of UpsertGeneratedIdentities\<close>

lemma used_loop_logs:
  "snd (used_loop d c is m lg) =
     lg @ map (\<lambda>i. LogWarning ''BUG: Attempting to upsert non-CIDR identity'')
            (filter (\<lambda>i. \<not> snd (cidr_prefix_of d i)) is)"
  by (induction "is" arbitrary: m lg)
     (auto simp: cidr_prefix_of_def split: prod.splits option.splits)

lemma used_loop_distinct:
  "distinct (map fst m) \<Longrightarrow> distinct (map fst (fst (used_loop d c is m lg)))"
  by (induction "is" arbitrary: m lg)
     (auto simp: distinct_update split: prod.splits option.splits)

lemma used_loop_keys:
  "fst ` set (fst (used_loop d c is m lg)) =
     fst ` set m \<union> {p. \<exists>i\<in>set is. cidr_prefix_of d i = (p, True) \<and> LookupByIPRLocked d p c = None}"
proof (induction "is" arbitrary: m lg)
  case Nil
  then show ?case by simp
next
  case (Cons i "is")
  obtain p ok where c: "cidrLabelToPrefix d (Labels_String d (CIDRLabel i)) = (p, ok)"
    by (metis prod.exhaust)
  show ?case
  proof (cases "ok \<and> LookupByIPRLocked d p c = None")
    case True
    then show ?thesis using c
      by (simp add: Cons.IH update_keys) (auto simp: cidr_prefix_of_def)
  next
    case False
    then have "used_loop d c (i # is) m lg = used_loop d c is m
         (if ok then lg else lg @ [LogWarning ''BUG: Attempting to upsert non-CIDR identity''])"
      using c by (auto split: option.splits)
    then show ?thesis using False c
      by (simp add: Cons.IH) (auto simp: cidr_prefix_of_def)
  qed
qed

lemma used_loop_entries:
  "set (fst (used_loop d c is m lg)) \<subseteq>
     set m \<union> {(p, i). i \<in> set is \<and> cidr_prefix_of d i = (p, True)}"
proof (induction "is" arbitrary: m lg)
  case Nil
  then show ?case by simp
next
  case (Cons i "is")
  obtain p ok where c: "cidrLabelToPrefix d (Labels_String d (CIDRLabel i)) = (p, ok)"
    by (metis prod.exhaust)
  have u: "set (AList.update p i m) \<subseteq> insert (p, i) (set m)"
    by (induction m) auto
  show ?case
  proof (cases "ok \<and> LookupByIPRLocked d p c = None")
    case True
    then have "set (fst (used_loop d c (i # is) m lg)) \<subseteq>
        set (AList.update p i m) \<union> {(p, i). i \<in> set is \<and> cidr_prefix_of d i = (p, True)}"
      using c Cons.IH[of "AList.update p i m" lg] by simp
    then show ?thesis using u True c by (auto simp: cidr_prefix_of_def)
  next
    case False
    then have "used_loop d c (i # is) m lg = used_loop d c is m
         (if ok then lg else lg @ [LogWarning ''BUG: Attempting to upsert non-CIDR identity''])"
      using c by (auto split: option.splits)
    then show ?thesis using Cons.IH[of m] by auto
  qed
qed

lemma recover_fold:
  "foldl (recover_upsert d) w xs =
     w\<lparr>recover_unexpected := recover_unexpected w + length xs,
       cache := foldl (upsert_generated d) (cache w) xs\<rparr>"
  by (induction xs arbitrary: w) (simp_all add: recover_upsert_def)

lemma used_loop_deleteLocked:
  "used_loop (d\<lparr>deleteLocked := del\<rparr>) c is m lg = used_loop d c is m lg"
  by (induction "is" arbitrary: m lg) (simp_all add: cidrLabelToPrefix_def split: option.splits)

lemma Upsert_independent_of_deleteLocked:
  "UpsertGeneratedIdentities (d\<lparr>deleteLocked := del\<rparr>) ks1 ks2 newMap usedList w =
   UpsertGeneratedIdentities d ks1 ks2 newMap usedList w"
proof -
  have u: "upsert_generated (d\<lparr>deleteLocked := del\<rparr>) = upsert_generated d"
    by (rule ext, rule ext) (simp add: upsert_generated_def)
  have r: "recover_upsert (d\<lparr>deleteLocked := del\<rparr>) = recover_upsert d"
    by (rule ext, rule ext) (simp add: recover_upsert_def u)
  show ?thesis
    by (simp add: UpsertGeneratedIdentities_def u r used_loop_deleteLocked Let_def)
qed

lemma singleton_keys:
  "distinct (map fst xs) \<Longrightarrow> fst ` set xs = {k} \<Longrightarrow> \<exists>v. xs = [(k, v)]"
proof (cases xs)
  case Nil
  assume "fst ` set xs = {k}"
  then show ?thesis using Nil by simp
next
  case (Cons x ys)
  assume d: "distinct (map fst xs)" and s: "fst ` set xs = {k}"
  have fx: "fst x = k" using s Cons by auto
  have "ys = []"
  proof (cases ys)
    case Nil
    then show ?thesis .
  next
    case (Cons y zs)
    then have "fst y = k" using s \<open>xs = x # ys\<close> by auto
    then show ?thesis using d fx Cons \<open>xs = x # ys\<close> by simp
  qed
  then show ?thesis using fx Cons by (cases x) simp
qed

subsection \<open>Runs of the small instance\<close>

lemma demo_run_fail_pre:
  "AllocateCIDRs_loop demo_deps None 0 [Some ''10.0.0.0/24''] [] [] (case None of None \<Rightarrow> [] | Some m \<Rightarrow> m)
     (alloc (demo_world 1))
   = Inr (Completed
       [\<lparr>ID = 256, Labels = [''cidr:10.0.0.0/24'', ''reserved:world''], CIDRLabel = [''cidr:10.0.0.0/24'']\<rparr>]
       [(''10.0.0.0/24'',
         \<lparr>ID = 256, Labels = [''cidr:10.0.0.0/24'', ''reserved:world''], CIDRLabel = [''cidr:10.0.0.0/24'']\<rparr>)]
       [(''10.0.0.0/24'',
         \<lparr>ID = 256, Labels = [''cidr:10.0.0.0/24'', ''reserved:world''], CIDRLabel = [''cidr:10.0.0.0/24'']\<rparr>)]
       (0, [([''cidr:10.0.0.0/24'', ''reserved:world''], 256, 1)]))"
  by code_simp

lemma demo_run_fail_hint: "oldNID_hint demo_deps None (length [Some ''10.0.0.0/24'']) = Inr 0"
  by code_simp

lemma demo_run_fail_alloc:
  "AllocateIdentity demo_deps
     (MergeLabels demo_deps (GetCIDRLabels demo_deps ''10.0.1.0/24'')
        (metadata_getLocked demo_deps (IPNet_IP_String demo_deps ''10.0.1.0/24'')))
     0 (0, [([''cidr:10.0.0.0/24'', ''reserved:world''], 256, 1)])
   = (AllocateFailed False ''no more available identities'',
      (0, [([''cidr:10.0.0.0/24'', ''reserved:world''], 256, 1)]))"
  by code_simp

lemma demo_run_fail_result:
  "Inr ((None :: demo_labels identity list option,
         Some (''failed to allocate identity for cidr '' @ IPNet_String demo_deps ''10.0.1.0/24''
                 @ '': '' @ ''no more available identities'')),
        (case None :: demo_labels idmap option of None \<Rightarrow> None
         | Some m \<Rightarrow> Some [(''10.0.0.0/24'',
             \<lparr>ID = 256, Labels = [''cidr:10.0.0.0/24'', ''reserved:world''], CIDRLabel = [''cidr:10.0.0.0/24'']\<rparr>)]),
        (demo_world 1)\<lparr>alloc := snd (ReleaseSlice demo_deps
           [\<lparr>ID = 256, Labels = [''cidr:10.0.0.0/24'', ''reserved:world''], CIDRLabel = [''cidr:10.0.0.0/24'']\<rparr>]
           (0, [([''cidr:10.0.0.0/24'', ''reserved:world''], 256, 1)]))\<rparr>)
   = (Inr ((None,
           Some ''failed to allocate identity for cidr 10.0.1.0/24: no more available identities''),
          None, demo_world 1) :: go_panic + _)"
  by code_simp

lemma demo_run_ok_allocations:
  "allocations demo_deps (Some [700]) 0
     [Some ''10.0.0.0/24'', None, Some ''10.0.1.0/24'', Some ''10.0.0.0/24'']
     (alloc (demo_world 5))
   = [(''10.0.0.0/24'', demo_cidr_identity ''10.0.0.0/24'' 700, True),
      (''10.0.1.0/24'', demo_cidr_identity ''10.0.1.0/24'' 257, True),
      (''10.0.0.0/24'', demo_cidr_identity ''10.0.0.0/24'' 700, False)]"
  by code_simp

lemma demo_new_prefixes:
  "{s. \<exists>i. (s, i, True) \<in> set
            [(''10.0.0.0/24'', demo_cidr_identity ''10.0.0.0/24'' 700, True),
             (''10.0.1.0/24'', demo_cidr_identity ''10.0.1.0/24'' 257, True),
             (''10.0.0.0/24'', demo_cidr_identity ''10.0.0.0/24'' 700, False)]}
         = {''10.0.0.0/24'', ''10.0.1.0/24''}"
  by (simp add: set_eq_iff) blast

lemma demo_run_ok:
  "AllocateCIDRs demo_deps [] [1]
     [Some ''10.0.0.0/24'', None, Some ''10.0.1.0/24'', Some ''10.0.0.0/24''] (Some [700]) None
     (demo_world 5)
   = Inr ((Some [demo_cidr_identity ''10.0.1.0/24'' 257, demo_cidr_identity ''10.0.0.0/24'' 700], None),
          None, demo_world_ok)"
  by code_simp

lemma demo_run_sink:
  "AllocateCIDRs demo_deps [] [] [Some ''10.0.0.0/24'', Some ''10.0.0.0/24''] None
     (Some [(''192.0.2.0/24'', demo_cidr_identity ''192.0.2.0/24'' 300)]) (demo_world 5)
   = Inr ((Some [demo_cidr_identity ''10.0.0.0/24'' 256], None),
          Some [(''192.0.2.0/24'', demo_cidr_identity ''192.0.2.0/24'' 300),
                (''10.0.0.0/24'', demo_cidr_identity ''10.0.0.0/24'' 256)],
          \<lparr>alloc = (4, [([''cidr:10.0.0.0/24'', ''reserved:world''], 256, 2)]),
           cache = [], queue = [], recover_unexpected = 0, logs = []\<rparr>)"
  by code_simp


lemma demo_parse_bogus: "ParseCIDR demo_deps ''bogus'' = Inl ''invalid CIDR address: bogus''"
  by code_simp

lemma demo_lookup_unknown:
  "ParseCIDR demo_deps ''10.9.9.0/24'' = Inr ''10.9.9.0/24''
   \<and> LookupIdentity demo_deps (GetCIDRLabels demo_deps ''10.9.9.0/24'') (alloc demo_world_one) = None"
  by code_simp

lemma demo_release_error:
  "ParseCIDR demo_deps_release_error ''10.0.0.0/24'' = Inr ''10.0.0.0/24''
   \<and> LookupIdentity demo_deps_release_error (GetCIDRLabels demo_deps_release_error ''10.0.0.0/24'')
         (alloc demo_world_one) = Some (demo_cidr_identity ''10.0.0.0/24'' 256)
   \<and> Release demo_deps_release_error (demo_cidr_identity ''10.0.0.0/24'' 256) (alloc demo_world_one)
       = ((False, Some ''kvstore unavailable''), alloc demo_world_one)"
  by code_simp

lemma demo_release_rest:
  "releaseCIDRIdentities demo_deps [''10.0.0.0/24'']
     (demo_world_one\<lparr>logs := logs demo_world_one
        @ [LogError ''Unable to parse CIDR during ipcache release'']\<rparr>)
   = \<lparr>alloc = (5, []), cache = [], queue = [], recover_unexpected = 0,
      logs = [LogError ''Unable to parse CIDR during ipcache release'']\<rparr>"
  by code_simp

lemma demo_release_error_world:
  "demo_world_one\<lparr>alloc := alloc demo_world_one,
     logs := logs demo_world_one @ [LogWarning
       ''Unable to release CIDR identity. Ignoring error. Identity may be leaked''],
     cache := (if False then deleteLocked demo_deps_release_error ''10.0.0.0/24'' Generated
                               (cache demo_world_one)
               else cache demo_world_one)\<rparr>
   = demo_world_one\<lparr>logs := [LogWarning
       ''Unable to release CIDR identity. Ignoring error. Identity may be leaked'']\<rparr>"
  by code_simp

lemma demo_used_labels:
  "strings_HasPrefix (Labels_String demo_deps (CIDRLabel (demo_cidr_identity ''10.0.0.0/24'' 256)))
     (LabelSourceCIDR demo_deps)
   \<and> strings_TrimPrefix (Labels_String demo_deps (CIDRLabel (demo_cidr_identity ''10.0.0.0/24'' 256)))
       (LabelSourceCIDR demo_deps @ '':'') = ''10.0.0.0/24''
   \<and> \<not> strings_HasPrefix (Labels_String demo_deps (CIDRLabel (demo_identity [''k8s:app=web''] 300)))
         (LabelSourceCIDR demo_deps)
   \<and> LookupByIPRLocked demo_deps ''10.0.0.0/24'' (cache demo_world_lost) = None"
  by code_simp

lemma demo_recovered:
  "demo_world_lost
     \<lparr>cache := foldl (\<lambda>c (s, i). Upsert demo_deps s \<lparr>ipc_ID = ID i, ipc_Source = Generated\<rparr> c)
                 (cache demo_world_lost) ([] @ [(''10.0.0.0/24'', demo_cidr_identity ''10.0.0.0/24'' 256)]),
      recover_unexpected := recover_unexpected demo_world_lost
        + length [(''10.0.0.0/24'', demo_cidr_identity ''10.0.0.0/24'' 256)],
      logs := logs demo_world_lost
        @ map (\<lambda>i. LogWarning ''BUG: Attempting to upsert non-CIDR identity'')
            (filter (\<lambda>i. \<not> strings_HasPrefix (Labels_String demo_deps (CIDRLabel i))
                               (LabelSourceCIDR demo_deps)) demo_used)\<rparr>
   = demo_world_one\<lparr>recover_unexpected := 1,
       logs := [LogWarning ''BUG: Attempting to upsert non-CIDR identity'']\<rparr>"
  by code_simp

lemma demo_byID_facts:
  "LookupIdentityByID demo_deps 256 (alloc demo_world_mixed)
     = Some (demo_cidr_identity ''10.0.0.0/24'' 256)
   \<and> Labels_String demo_deps (CIDRLabel (demo_cidr_identity ''10.0.0.0/24'' 256))
       = LabelSourceCIDR demo_deps @ '':'' @ ''10.0.0.0/24''
   \<and> LookupIdentityByID demo_deps 999 (alloc demo_world_mixed) = None
   \<and> LookupIdentityByID demo_deps 300 (alloc demo_world_mixed)
       = Some (demo_identity [''k8s:app=web''] 300)
   \<and> \<not> strings_HasPrefix (Labels_String demo_deps (CIDRLabel (demo_identity [''k8s:app=web''] 300)))
         (LabelSourceCIDR demo_deps)"
  by code_simp


section \<open>The claims\<close>

text \<open>
  C6. Nil entries of \<open>prefixes\<close> are skipped: a batch of nil entries only (the empty
  batch is the case \<open>n = 0\<close>) returns an empty, non-nil identity slice and a nil error,
  and leaves the allocator, the cache and the caller's map as they were; and a nil entry
  anywhere in a batch has no effect of its own, the call being the call on the batch
  without that entry (and without the hint at its index): no error comes of it and no
  identity is allocated for it.
\<close>

theorem nil_prefixes_skipped:
  "AllocateCIDRs d ks1 ks2 (replicate n None) oldNIDs sink w = Inr ((Some [], None), sink, w)
   \<and> AllocateCIDRs d ks1 ks2 (pre @ None # post) oldNIDs sink w =
       AllocateCIDRs d ks1 ks2 (pre @ post) (map_option (drop_index (length pre)) oldNIDs) sink w"
proof
  show "AllocateCIDRs d ks1 ks2 (replicate n None) oldNIDs sink w = Inr ((Some [], None), sink, w)"
    by (cases sink) (simp_all add: AllocateCIDRs_def loop_all_nil UpsertGeneratedIdentities_def)
  show "AllocateCIDRs d ks1 ks2 (pre @ None # post) oldNIDs sink w =
       AllocateCIDRs d ks1 ks2 (pre @ post) (map_option (drop_index (length pre)) oldNIDs) sink w"
    using loop_skip_nil[of d oldNIDs 0 pre post] by (simp add: AllocateCIDRs_def)
qed



text \<open>
  C1. Rollback: let the loop of \<open>AllocateCIDRs\<close> have allocated identities for all the
  prefixes before \<open>p\<close> (the list \<open>used\<close>), and let the allocator then fail for
  \<open>p\<close> with the error \<open>err\<close>. Then the call returns a nil identity slice and that
  error (wrapped with the prefix); the allocator it leaves is the one \<open>ReleaseSlice\<close>
  leaves when given exactly \<open>used\<close>, the identities allocated earlier in this call,
  and the error \<open>ReleaseSlice\<close> may return is not looked at; the cache, the counter,
  the log and the queue are as before the call, so nothing has been upserted.
\<close>

theorem rollback_on_failure:
  assumes pre: "AllocateCIDRs_loop d oldNIDs 0 pre [] [] (case sink of None \<Rightarrow> [] | Some m \<Rightarrow> m)
                  (alloc w) = Inr (Completed used allocd newly a)"
    and hint: "oldNID_hint d oldNIDs (length pre) = Inr h"
    and fail: "AllocateIdentity d
                 (MergeLabels d (GetCIDRLabels d p) (metadata_getLocked d (IPNet_IP_String d p)))
                 h a = (AllocateFailed isNew err, a')"
  shows "AllocateCIDRs d ks1 ks2 (pre @ Some p # post) oldNIDs sink w =
           Inr ((None,
                 Some (''failed to allocate identity for cidr '' @ IPNet_String d p @ '': '' @ err)),
                (case sink of None \<Rightarrow> None | Some m \<Rightarrow> Some newly),
                w\<lparr>alloc := snd (ReleaseSlice d used a')\<rparr>)
         \<and> used = map (\<lambda>(s, i, b). i) (allocations d oldNIDs 0 pre (alloc w))"
proof
  have "AllocateCIDRs_loop d oldNIDs 0 (pre @ Some p # post) [] []
          (case sink of None \<Rightarrow> [] | Some m \<Rightarrow> m) (alloc w)
        = AllocateCIDRs_loop d oldNIDs (length pre) (Some p # post) used allocd newly a"
    using loop_append[OF pre] by simp
  also have "\<dots> = Inr (Failed
        (''failed to allocate identity for cidr '' @ IPNet_String d p @ '': '' @ err)
        (snd (ReleaseSlice d used a')) newly)"
    using hint fail by (simp add: Let_def allocate_Some)
  finally show "AllocateCIDRs d ks1 ks2 (pre @ Some p # post) oldNIDs sink w =
           Inr ((None,
                 Some (''failed to allocate identity for cidr '' @ IPNet_String d p @ '': '' @ err)),
                (case sink of None \<Rightarrow> None | Some m \<Rightarrow> Some newly),
                w\<lparr>alloc := snd (ReleaseSlice d used a')\<rparr>)"
    by (cases sink) (simp_all add: AllocateCIDRs_def)
  show "used = map (\<lambda>(s, i, b). i) (allocations d oldNIDs 0 pre (alloc w))"
    using loop_Completed[OF pre] by simp
qed

text \<open>
  On the small instance with one identity left, the second prefix cannot be allocated:
  the call fails, and the allocator is back where it started.
\<close>

theorem rollback_on_failure_witness:
  "AllocateCIDRs demo_deps [] [] [Some ''10.0.0.0/24'', Some ''10.0.1.0/24''] None None (demo_world 1) =
     Inr ((None,
           Some ''failed to allocate identity for cidr 10.0.1.0/24: no more available identities''),
          None, demo_world 1)"
  using rollback_on_failure[OF demo_run_fail_pre demo_run_fail_hint demo_run_fail_alloc, of "[]" "[]" "[]", THEN conjunct1]
  unfolding demo_run_fail_result by simp

text \<open>
  C2. A successful \<open>AllocateCIDRs\<close> with a nil \<open>newlyAllocatedIdentities\<close> upserts
  one entry per prefix string for which the allocator reported a new identity
  (\<open>isNew = true\<close>), with that identity (the latest one reported new for the prefix)
  and the source \<open>Generated\<close>, and nothing else: a prefix whose allocations were all
  reuses (\<open>isNew = false\<close>) is not upserted, and the counter, the log and the queue do
  not change. The identities returned are one per distinct prefix string of the batch:
  the identity allocated last for it.
\<close>

theorem generated_upserts_nil_sink:
  assumes "AllocateCIDRs d ks1 ks2 prefixes oldNIDs None w = Inr ((Some ids, None), sink', w')"
  defines "T \<equiv> allocations d oldNIDs 0 prefixes (alloc w)"
  shows "\<exists>ups ents.
           cache w' = foldl (\<lambda>c (s, i). Upsert d s \<lparr>ipc_ID = ID i, ipc_Source = Generated\<rparr> c)
                        (cache w) ups
         \<and> distinct (map fst ups)
         \<and> map_of ups = last_new T
         \<and> fst ` set ups = {s. \<exists>i. (s, i, True) \<in> set T}
         \<and> set ups \<subseteq> {(s, i). (s, i, True) \<in> set T}
         \<and> recover_unexpected w' = recover_unexpected w \<and> logs w' = logs w \<and> queue w' = queue w
         \<and> ids = map snd ents
         \<and> distinct (map fst ents)
         \<and> map_of ents = last_allocated T
         \<and> fst ` set ents = IPNet_String d ` {p. Some p \<in> set prefixes}"
proof -
  from assms(1) obtain a where
    ids: "ids = map snd (go_range ks2 (store_all [] T))"
    and keys: "fst ` set T = IPNet_String d ` {p. Some p \<in> set prefixes}"
    and w': "w' = UpsertGeneratedIdentities d ks1 [] (store_new [] T) [] (w\<lparr>alloc := a\<rparr>)"
    unfolding T_def by (rule AllocateCIDRs_success) simp
  define ups where "ups = go_range ks1 (store_new [] T)"
  define ents where "ents = go_range ks2 (store_all [] T)"
  have dn: "distinct (map fst (store_new [] T))" by (rule store_new_distinct) simp
  have da: "distinct (map fst (store_all [] T))" by (rule store_all_distinct) simp
  have 1: "cache w' = foldl (\<lambda>c (s, i). Upsert d s \<lparr>ipc_ID = ID i, ipc_Source = Generated\<rparr> c)
                        (cache w) ups"
    by (simp add: w' UpsertGeneratedIdentities_def ups_def upsert_generated_eq)
  have 2: "distinct (map fst ups)" by (simp add: ups_def go_range_distinct_keys dn)
  have 3: "map_of ups = last_new T"
    by (simp add: ups_def go_range_map_of dn store_new_map_of)
  have 4: "fst ` set ups = {s. \<exists>i. (s, i, True) \<in> set T}"
    by (simp add: ups_def go_range_set store_new_keys)
  have 5: "set ups \<subseteq> {(s, i). (s, i, True) \<in> set T}"
  proof
    fix x assume "x \<in> set ups"
    then have "map_of ups (fst x) = Some (snd x)" using 2 by simp
    then have "(fst x, snd x, True) \<in> set T" unfolding 3 by (rule last_new_Some)
    then show "x \<in> {(s, i). (s, i, True) \<in> set T}" by (simp add: case_prod_beta)
  qed
  have 6: "recover_unexpected w' = recover_unexpected w \<and> logs w' = logs w \<and> queue w' = queue w"
    by (simp add: w' UpsertGeneratedIdentities_def)
  have 7: "ids = map snd ents" by (simp add: ids ents_def)
  have 8: "distinct (map fst ents)" by (simp add: ents_def go_range_distinct_keys da)
  have 9: "map_of ents = last_allocated T"
    by (simp add: ents_def go_range_map_of da store_all_map_of)
  have 10: "fst ` set ents = IPNet_String d ` {p. Some p \<in> set prefixes}"
    by (simp add: ents_def go_range_set store_all_keys keys)
  from 1 2 3 4 5 6 7 8 9 10 show ?thesis by blast
qed

text \<open>
  On the small instance: two prefixes, one of them twice (the second time as a reuse),
  and a nil entry. Both prefixes are upserted once, and two identities are returned.
\<close>

theorem generated_upserts_nil_sink_witness:
  "AllocateCIDRs demo_deps [] [1]
     [Some ''10.0.0.0/24'', None, Some ''10.0.1.0/24'', Some ''10.0.0.0/24''] (Some [700]) None
     (demo_world 5)
   = Inr ((Some [demo_cidr_identity ''10.0.1.0/24'' 257, demo_cidr_identity ''10.0.0.0/24'' 700], None),
          None, demo_world_ok)
   \<and> (\<exists>ups :: demo_labels idmap. cache demo_world_ok
              = foldl (\<lambda>c (s, i). Upsert demo_deps s \<lparr>ipc_ID = ID i, ipc_Source = Generated\<rparr> c)
                  (cache (demo_world 5)) ups
            \<and> distinct (map fst ups)
            \<and> fst ` set ups = {''10.0.0.0/24'', ''10.0.1.0/24''})"
  using generated_upserts_nil_sink[OF demo_run_ok, unfolded demo_run_ok_allocations demo_new_prefixes]
  by (elim exE conjE)
    (rule conjI, rule demo_run_ok, rule exI, rule conjI, assumption, rule conjI, assumption, assumption)

text \<open>
  C3. A successful \<open>AllocateCIDRs\<close> with a map \<open>m\<close> for
  \<open>newlyAllocatedIdentities\<close> upserts nothing: the cache is unchanged, and so are the
  counter, the log and the queue. The map holds afterwards, under its prefix string,
  every identity the allocator reported new (the latest one per prefix), and otherwise
  what it held before.
\<close>

theorem sink_map_no_upsert:
  assumes "AllocateCIDRs d ks1 ks2 prefixes oldNIDs (Some m) w = Inr ((Some ids, None), sink', w')"
  defines "T \<equiv> allocations d oldNIDs 0 prefixes (alloc w)"
  shows "cache w' = cache w \<and> recover_unexpected w' = recover_unexpected w
         \<and> logs w' = logs w \<and> queue w' = queue w
         \<and> (\<exists>m'. sink' = Some m'
                \<and> map_of m' = map_of m ++ last_new T
                \<and> fst ` set m' = fst ` set m \<union> {s. \<exists>i. (s, i, True) \<in> set T}
                \<and> (distinct (map fst m) \<longrightarrow> distinct (map fst m')))"
proof -
  from assms(1) obtain a where
    sink': "sink' = Some (store_new m T)" and w': "w' = w\<lparr>alloc := a\<rparr>"
    unfolding T_def by (rule AllocateCIDRs_success) simp
  show ?thesis
    by (simp add: sink' w' store_new_map_of store_new_keys store_new_distinct)
qed

text \<open>
  On the small instance: the caller's map gains the new identity, the cache stays empty.
\<close>

theorem sink_map_no_upsert_witness:
  "AllocateCIDRs demo_deps [] [] [Some ''10.0.0.0/24'', Some ''10.0.0.0/24''] None
     (Some [(''192.0.2.0/24'', demo_cidr_identity ''192.0.2.0/24'' 300)]) (demo_world 5)
   = Inr ((Some [demo_cidr_identity ''10.0.0.0/24'' 256], None),
          Some [(''192.0.2.0/24'', demo_cidr_identity ''192.0.2.0/24'' 300),
                (''10.0.0.0/24'', demo_cidr_identity ''10.0.0.0/24'' 256)],
          \<lparr>alloc = (4, [([''cidr:10.0.0.0/24'', ''reserved:world''], 256, 2)]),
           cache = [], queue = [], recover_unexpected = 0, logs = []\<rparr>)
   \<and> cache \<lparr>alloc = (4 :: nat, [([''cidr:10.0.0.0/24'', ''reserved:world''], 256 :: NumericIdentity, 2 :: nat)]),
            cache = [] :: demo_cache, queue = [] :: demo_queue, recover_unexpected = 0, logs = []\<rparr>
       = cache (demo_world 5)
   \<and> distinct (map fst [(''192.0.2.0/24'', demo_cidr_identity ''192.0.2.0/24'' 300),
                         (''10.0.0.0/24'', demo_cidr_identity ''10.0.0.0/24'' 256)])"
proof -
  have "distinct (map fst [(''192.0.2.0/24'', demo_cidr_identity ''192.0.2.0/24'' 300)])"
    by simp
  with sink_map_no_upsert[OF demo_run_sink] demo_run_sink show ?thesis
    by simp
qed

text \<open>
  C4. The release transaction calls \<open>deleteLocked\<close> (with the source \<open>Generated\<close>)
  for a prefix of the batch if and only if \<open>Release\<close>, called for the identity of that
  prefix, reported that the last reference was released: the cache after the batch is the
  cache before it with \<open>deleteLocked\<close> applied for exactly the positions of the batch
  with that answer, in their order. For a batch of one prefix: the entry is deleted when
  the last reference went, and the cache is unchanged when the release only decremented
  the count (or when there was nothing to release).
\<close>

theorem release_deletes_iff_last_reference:
  "cache (releaseCIDRIdentities d prefixes w) =
     foldl (\<lambda>c p. deleteLocked d p Generated c) (cache w)
       (map ((!) prefixes)
          (filter (\<lambda>k. last_reference_released d (prefixes ! k)
                          (alloc (releaseCIDRIdentities d (take k prefixes) w)))
             [0..<length prefixes]))
   \<and> cache (releaseCIDRIdentities d [p] w) =
       (if last_reference_released d p (alloc w)
        then deleteLocked d p Generated (cache w) else cache w)"
proof
  have "cache (releaseCIDRIdentities d prefixes w) =
     foldl (\<lambda>c p. deleteLocked d p Generated c) (cache w)
       (map ((!) prefixes) (released_positions d prefixes w))"
  proof (induction prefixes rule: rev_induct)
    case Nil
    then show ?case by (simp add: releaseCIDRIdentities_def released_positions_def)
  next
    case (snoc p ps)
    show ?case
      unfolding released_positions_snoc release_snoc_cache snoc.IH by simp
  qed
  then show "cache (releaseCIDRIdentities d prefixes w) =
     foldl (\<lambda>c p. deleteLocked d p Generated c) (cache w)
       (map ((!) prefixes)
          (filter (\<lambda>k. last_reference_released d (prefixes ! k)
                          (alloc (releaseCIDRIdentities d (take k prefixes) w)))
             [0..<length prefixes]))"
    by (simp add: released_positions_def)
  show "cache (releaseCIDRIdentities d [p] w) =
       (if last_reference_released d p (alloc w)
        then deleteLocked d p Generated (cache w) else cache w)"
    by (simp add: release_single split: prod.splits)
qed

text \<open>
  C5. \<open>UpsertGeneratedIdentities\<close> upserts every entry of
  \<open>newlyAllocatedIdentities\<close> once, with the source \<open>Generated\<close>. Then, for the
  identities of \<open>usedIdentities\<close>: one whose CIDR label does not start with the label
  source \<open>cidr\<close> is skipped with a warning; for the others the prefix is the label
  without its leading \<open>cidr:\<close>; a prefix the cache holds (after the first upserts)
  is left alone; every other prefix is upserted once, and the counter of unexpected
  recoveries goes up by one for it. Nothing else changes, and nothing is deleted: the
  cache is only ever upserted, and the result does not depend on \<open>deleteLocked\<close> at
  all. The label \<open>allocate\<close> writes for a prefix, \<open>cidr:\<close> followed by the
  prefix string, yields that prefix string back.
\<close>

theorem upsert_generated_identities_widens:
  fixes d :: "('p, 'l, 'a, 'c, 'q) deps"
  shows "\<exists>news toUpsert.
      mset news = mset newMap
    \<and> UpsertGeneratedIdentities d ks1 ks2 newMap usedList w =
        w\<lparr>cache := foldl (\<lambda>c (s, i). Upsert d s \<lparr>ipc_ID = ID i, ipc_Source = Generated\<rparr> c)
                     (cache w) (news @ toUpsert),
          recover_unexpected := recover_unexpected w + length toUpsert,
          logs := logs w @ map (\<lambda>i. LogWarning ''BUG: Attempting to upsert non-CIDR identity'')
                             (filter (\<lambda>i. \<not> strings_HasPrefix (Labels_String d (CIDRLabel i))
                                                (LabelSourceCIDR d))
                                usedList)\<rparr>
    \<and> distinct (map fst toUpsert)
    \<and> fst ` set toUpsert =
        {p. \<exists>i\<in>set usedList.
              strings_HasPrefix (Labels_String d (CIDRLabel i)) (LabelSourceCIDR d)
            \<and> p = strings_TrimPrefix (Labels_String d (CIDRLabel i)) (LabelSourceCIDR d @ '':'')
            \<and> LookupByIPRLocked d p
                (foldl (\<lambda>c (s, i). Upsert d s \<lparr>ipc_ID = ID i, ipc_Source = Generated\<rparr> c)
                   (cache w) news) = None}
    \<and> set toUpsert \<subseteq>
        {(p, i). i \<in> set usedList
               \<and> strings_HasPrefix (Labels_String d (CIDRLabel i)) (LabelSourceCIDR d)
               \<and> p = strings_TrimPrefix (Labels_String d (CIDRLabel i)) (LabelSourceCIDR d @ '':'')}
    \<and> UpsertGeneratedIdentities (d\<lparr>deleteLocked := del\<rparr>) ks1 ks2 newMap usedList w =
        UpsertGeneratedIdentities d ks1 ks2 newMap usedList w
    \<and> cidrLabelToPrefix d (LabelSourceCIDR d @ '':'' @ s) = (s, True)"
proof -
  define U where "U = (\<lambda>c (s, i :: 'l identity). Upsert d s \<lparr>ipc_ID = ID i, ipc_Source = Generated\<rparr> c)"
  define news where "news = go_range ks1 newMap"
  define c1 where "c1 = foldl U (cache w) news"
  define tu where "tu = fst (used_loop d c1 usedList [] (logs w))"
  define toUpsert where "toUpsert = go_range ks2 tu"
  have U: "upsert_generated d = U" by (simp add: U_def upsert_generated_eq)
  have 1: "mset news = mset newMap" by (simp add: news_def go_range_mset)
  have lg: "snd (used_loop d c1 usedList [] (logs w)) =
      logs w @ map (\<lambda>i. LogWarning ''BUG: Attempting to upsert non-CIDR identity'')
                 (filter (\<lambda>i. \<not> strings_HasPrefix (Labels_String d (CIDRLabel i)) (LabelSourceCIDR d))
                    usedList)"
    using used_loop_logs[of d c1 usedList "[]" "logs w"]
    by (simp add: cidr_prefix_of_def cidrLabelToPrefix_ok)
  have 2: "UpsertGeneratedIdentities d ks1 ks2 newMap usedList w =
        w\<lparr>cache := foldl U (cache w) (news @ toUpsert),
          recover_unexpected := recover_unexpected w + length toUpsert,
          logs := logs w @ map (\<lambda>i. LogWarning ''BUG: Attempting to upsert non-CIDR identity'')
                             (filter (\<lambda>i. \<not> strings_HasPrefix (Labels_String d (CIDRLabel i))
                                                (LabelSourceCIDR d))
                                usedList)\<rparr>"
  proof (cases usedList)
    case Nil
    then show ?thesis
      by (simp add: UpsertGeneratedIdentities_def U news_def toUpsert_def tu_def Let_def)
  next
    case (Cons x xs)
    then have ne: "length usedList \<noteq> 0" by simp
    obtain t l where ul: "used_loop d c1 usedList [] (logs w) = (t, l)" by (metis prod.exhaust)
    have t: "t = tu" and l: "l = snd (used_loop d c1 usedList [] (logs w))"
      using ul by (simp_all add: tu_def)
    show ?thesis
      using ne ul lg
      by (simp add: UpsertGeneratedIdentities_def U news_def[symmetric] c1_def[symmetric]
            recover_fold t l toUpsert_def[symmetric] Let_def)
  qed
  have 3: "distinct (map fst toUpsert)"
    by (simp add: toUpsert_def go_range_distinct_keys tu_def used_loop_distinct)
  have 4: "fst ` set toUpsert =
        {p. \<exists>i\<in>set usedList.
              strings_HasPrefix (Labels_String d (CIDRLabel i)) (LabelSourceCIDR d)
            \<and> p = strings_TrimPrefix (Labels_String d (CIDRLabel i)) (LabelSourceCIDR d @ '':'')
            \<and> LookupByIPRLocked d p (foldl U (cache w) news) = None}"
    using used_loop_keys[of d c1 usedList "[]" "logs w"]
    by (simp add: toUpsert_def go_range_set tu_def cidr_prefix_of_def c1_def cidrLabelToPrefix_True
          conj_assoc)
  have 5: "set toUpsert \<subseteq>
        {(p, i). i \<in> set usedList
               \<and> strings_HasPrefix (Labels_String d (CIDRLabel i)) (LabelSourceCIDR d)
               \<and> p = strings_TrimPrefix (Labels_String d (CIDRLabel i)) (LabelSourceCIDR d @ '':'')}"
    using used_loop_entries[of d c1 usedList "[]" "logs w"]
    by (simp add: toUpsert_def go_range_set tu_def cidr_prefix_of_def cidrLabelToPrefix_True)
  have 7: "cidrLabelToPrefix d (LabelSourceCIDR d @ '':'' @ s) = (s, True)"
    by (simp add: cidrLabelToPrefix_def strings_HasPrefix_def strings_TrimPrefix_def)
  show ?thesis
    using 1 2 3 4 5 7 Upsert_independent_of_deleteLocked[of del d ks1 ks2 newMap usedList w]
    unfolding U_def by blast
qed

text \<open>
  Self-healing on the small instance: the cache entry of \<open>10.0.0.0/24\<close> is lost
  while its identity is held. With that identity in the used list (twice) next to an
  identity without CIDR label, the entry is back, the counter is 1 and one warning is
  logged.
\<close>

theorem upsert_generated_identities_widens_witness:
  "UpsertGeneratedIdentities demo_deps [] [] [] demo_used demo_world_lost
   = demo_world_one\<lparr>recover_unexpected := 1,
       logs := [LogWarning ''BUG: Attempting to upsert non-CIDR identity'']\<rparr>"
proof -
  let ?A = "demo_cidr_identity ''10.0.0.0/24'' 256"
  let ?B = "demo_identity [''k8s:app=web''] 300"
  let ?U = "\<lambda>c (s, i :: demo_labels identity).
              Upsert demo_deps s \<lparr>ipc_ID = ID i, ipc_Source = Generated\<rparr> c"
  let ?H = "\<lambda>i. strings_HasPrefix (Labels_String demo_deps (CIDRLabel i)) (LabelSourceCIDR demo_deps)"
  let ?T = "\<lambda>i. strings_TrimPrefix (Labels_String demo_deps (CIDRLabel i))
                   (LabelSourceCIDR demo_deps @ '':'')"
  have HA: "?H ?A" using demo_used_labels by (rule conjunct1)
  have TA: "?T ?A = ''10.0.0.0/24''"
    using demo_used_labels[THEN conjunct2] by (rule conjunct1)
  have HB: "\<not> ?H ?B"
    using demo_used_labels[THEN conjunct2, THEN conjunct2] by (rule conjunct1)
  have LK: "LookupByIPRLocked demo_deps ''10.0.0.0/24'' (cache demo_world_lost) = None"
    using demo_used_labels[THEN conjunct2, THEN conjunct2] by (rule conjunct2)
  note ex = upsert_generated_identities_widens[of "[]" demo_deps "[]" "[]" demo_used demo_world_lost
      "deleteLocked demo_deps" "[]"]
  show ?thesis
  proof (insert ex, elim exE conjE)
    fix news toUpsert :: "demo_labels idmap"
    assume n: "mset news = mset []"
      and run: "UpsertGeneratedIdentities demo_deps [] [] [] demo_used demo_world_lost =
        demo_world_lost
          \<lparr>cache := foldl ?U (cache demo_world_lost) (news @ toUpsert),
           recover_unexpected := recover_unexpected demo_world_lost + length toUpsert,
           logs := logs demo_world_lost
             @ map (\<lambda>i. LogWarning ''BUG: Attempting to upsert non-CIDR identity'')
                 (filter (\<lambda>i. \<not> ?H i) demo_used)\<rparr>"
      and dist: "distinct (map fst toUpsert)"
      and keys: "fst ` set toUpsert =
        {p. \<exists>i\<in>set demo_used. ?H i \<and> p = ?T i
            \<and> LookupByIPRLocked demo_deps p (foldl ?U (cache demo_world_lost) news) = None}"
      and ents: "set toUpsert \<subseteq> {(p, i). i \<in> set demo_used \<and> ?H i \<and> p = ?T i}"
    have news: "news = []" using n by simp
    have mem: "\<And>i. i \<in> set demo_used \<Longrightarrow> i = ?A \<or> i = ?B"
      unfolding demo_used_def by (simp only: set_simps insert_iff empty_iff) blast
    have memA: "?A \<in> set demo_used" unfolding demo_used_def by (simp only: set_simps insert_iff) blast
    have K: "fst ` set toUpsert = {''10.0.0.0/24''}"
    proof (rule set_eqI)
      fix p
      show "(p \<in> fst ` set toUpsert) = (p \<in> {''10.0.0.0/24''})"
      proof
        assume "p \<in> fst ` set toUpsert"
        then obtain i where i: "i \<in> set demo_used" "?H i" "p = ?T i"
          unfolding keys by blast
        from mem[OF i(1)] i(2) HB have "i = ?A" by blast
        then show "p \<in> {''10.0.0.0/24''}" using i(3) TA by simp
      next
        assume "p \<in> {''10.0.0.0/24''}"
        then have p: "p = ?T ?A" using TA by simp
        have lk: "LookupByIPRLocked demo_deps p (foldl ?U (cache demo_world_lost) news) = None"
          unfolding p TA news using LK by simp
        have "\<exists>i\<in>set demo_used. ?H i \<and> p = ?T i
            \<and> LookupByIPRLocked demo_deps p (foldl ?U (cache demo_world_lost) news) = None"
          by (rule bexI[OF _ memA]) (intro conjI HA p lk)
        then show "p \<in> fst ` set toUpsert"
          unfolding keys mem_Collect_eq .
      qed
    qed
    from singleton_keys[OF dist K] obtain v where tu: "toUpsert = [(''10.0.0.0/24'', v)]" ..
    have "(''10.0.0.0/24'', v) \<in> set toUpsert" unfolding tu by simp
    then have "v \<in> set demo_used \<and> ?H v" using ents by blast
    then have v: "v = ?A" using HB mem by blast
    show ?thesis
      using run unfolding news tu v demo_recovered .
  qed
qed

text \<open>
  C7. No failure for one prefix stops the release transaction or reaches the caller (the
  transaction returns the new state and no error): the prefixes after \<open>p\<close> are
  processed from the state \<open>p\<close> leaves, and a prefix that does not parse, or whose
  identity is not found, leaves nothing but an error line in the log, and a
  \<open>Release\<close> that returns an error leaves a warning in the log next to what
  \<open>Release\<close> itself did.
\<close>

theorem release_failures_do_not_abort:
  "releaseCIDRIdentities d (pre @ p # post) w =
     releaseCIDRIdentities d post (releaseCIDRIdentities d [p] (releaseCIDRIdentities d pre w))
   \<and> (ParseCIDR d p = Inl e \<longrightarrow>
        releaseCIDRIdentities d [p] w =
          w\<lparr>logs := logs w @ [LogError ''Unable to parse CIDR during ipcache release'']\<rparr>)
   \<and> (ParseCIDR d p = Inr c \<and> LookupIdentity d (GetCIDRLabels d c) (alloc w) = None \<longrightarrow>
        releaseCIDRIdentities d [p] w =
          w\<lparr>logs := logs w @ [LogError ''Unable to find identity of previously used CIDR'']\<rparr>)
   \<and> (ParseCIDR d p = Inr c \<and> LookupIdentity d (GetCIDRLabels d c) (alloc w) = Some i
        \<and> Release d i (alloc w) = ((released, Some rerr), a') \<longrightarrow>
        releaseCIDRIdentities d [p] w =
          w\<lparr>alloc := a',
            logs := logs w @ [LogWarning
              ''Unable to release CIDR identity. Ignoring error. Identity may be leaked''],
            cache := (if released then deleteLocked d p Generated (cache w) else cache w)\<rparr>)"
proof (intro conjI impI)
  show "releaseCIDRIdentities d (pre @ p # post) w =
     releaseCIDRIdentities d post (releaseCIDRIdentities d [p] (releaseCIDRIdentities d pre w))"
    using release_append[of d pre "[p] @ post" w] release_append[of d "[p]" post]
    by simp
next
  assume "ParseCIDR d p = Inl e"
  then show "releaseCIDRIdentities d [p] w =
          w\<lparr>logs := logs w @ [LogError ''Unable to parse CIDR during ipcache release'']\<rparr>"
    by (simp add: releaseCIDRIdentities_def release_step_def)
next
  assume "ParseCIDR d p = Inr c \<and> LookupIdentity d (GetCIDRLabels d c) (alloc w) = None"
  then show "releaseCIDRIdentities d [p] w =
          w\<lparr>logs := logs w @ [LogError ''Unable to find identity of previously used CIDR'']\<rparr>"
    by (simp add: releaseCIDRIdentities_def release_step_def)
next
  assume "ParseCIDR d p = Inr c \<and> LookupIdentity d (GetCIDRLabels d c) (alloc w) = Some i
        \<and> Release d i (alloc w) = ((released, Some rerr), a')"
  then show "releaseCIDRIdentities d [p] w =
          w\<lparr>alloc := a',
            logs := logs w @ [LogWarning
              ''Unable to release CIDR identity. Ignoring error. Identity may be leaked''],
            cache := (if released then deleteLocked d p Generated (cache w) else cache w)\<rparr>"
    by (simp add: releaseCIDRIdentities_def release_step_def)
qed

text \<open>
  On the small instance: a batch with a malformed prefix still releases the prefix after
  it; an unknown prefix and a failing \<open>Release\<close> change the log only.
\<close>

theorem release_failures_do_not_abort_witness:
  "releaseCIDRIdentities demo_deps [''bogus'', ''10.0.0.0/24''] demo_world_one
     = \<lparr>alloc = (5, []), cache = [], queue = [], recover_unexpected = 0,
        logs = [LogError ''Unable to parse CIDR during ipcache release'']\<rparr>
   \<and> releaseCIDRIdentities demo_deps [''10.9.9.0/24''] demo_world_one
     = demo_world_one\<lparr>logs := logs demo_world_one
         @ [LogError ''Unable to find identity of previously used CIDR'']\<rparr>
   \<and> releaseCIDRIdentities demo_deps_release_error [''10.0.0.0/24''] demo_world_one
     = demo_world_one\<lparr>logs := [LogWarning
         ''Unable to release CIDR identity. Ignoring error. Identity may be leaked'']\<rparr>"
proof (intro conjI)
  note T = release_failures_do_not_abort[of demo_deps "[]" "''bogus''" "[''10.0.0.0/24'']" demo_world_one
      "''invalid CIDR address: bogus''"]
  have e: "releaseCIDRIdentities demo_deps [] demo_world_one = demo_world_one"
    by (simp add: releaseCIDRIdentities_def)
  have "releaseCIDRIdentities demo_deps [''bogus''] demo_world_one =
      demo_world_one\<lparr>logs := logs demo_world_one
        @ [LogError ''Unable to parse CIDR during ipcache release'']\<rparr>"
    using T[THEN conjunct2, THEN conjunct1] demo_parse_bogus by (rule mp)
  then show "releaseCIDRIdentities demo_deps [''bogus'', ''10.0.0.0/24''] demo_world_one
     = \<lparr>alloc = (5, []), cache = [], queue = [], recover_unexpected = 0,
        logs = [LogError ''Unable to parse CIDR during ipcache release'']\<rparr>"
    using T[THEN conjunct1] by (simp add: e demo_release_rest)
next
  show "releaseCIDRIdentities demo_deps [''10.9.9.0/24''] demo_world_one
     = demo_world_one\<lparr>logs := logs demo_world_one
         @ [LogError ''Unable to find identity of previously used CIDR'']\<rparr>"
    using release_failures_do_not_abort[of demo_deps "[]" "''10.9.9.0/24''" "[]" demo_world_one _ "''10.9.9.0/24''",
        THEN conjunct2, THEN conjunct2, THEN conjunct1] demo_lookup_unknown
    by (rule mp)
next
  have "releaseCIDRIdentities demo_deps_release_error [''10.0.0.0/24''] demo_world_one
     = demo_world_one\<lparr>alloc := alloc demo_world_one,
         logs := logs demo_world_one @ [LogWarning
           ''Unable to release CIDR identity. Ignoring error. Identity may be leaked''],
         cache := (if False then deleteLocked demo_deps_release_error ''10.0.0.0/24'' Generated
                                   (cache demo_world_one)
                   else cache demo_world_one)\<rparr>"
    using release_failures_do_not_abort[of demo_deps_release_error "[]" "''10.0.0.0/24''" "[]" demo_world_one _
        "''10.0.0.0/24''" "demo_cidr_identity ''10.0.0.0/24'' 256" False "''kvstore unavailable''"
        "alloc demo_world_one",
        THEN conjunct2, THEN conjunct2, THEN conjunct2] demo_release_error
    by (rule mp)
  then show "releaseCIDRIdentities demo_deps_release_error [''10.0.0.0/24''] demo_world_one
     = demo_world_one\<lparr>logs := [LogWarning
         ''Unable to release CIDR identity. Ignoring error. Identity may be leaked'']\<rparr>"
    unfolding demo_release_error_world .
qed

text \<open>
  C8. \<open>ReleaseCIDRIdentitiesByID\<close> enqueues, in order, exactly the prefixes of the
  numeric identities that resolve: those the allocator still knows and whose CIDR label
  starts with the label source \<open>cidr\<close>, the prefix being the label without its leading
  \<open>cidr:\<close>. An identity the allocator does not know any more, and one whose CIDR
  label is no such label, is warned about and contributes nothing. The call changes
  neither the cache nor the allocator.
\<close>

theorem release_by_id_resolves_prefixes:
  "ReleaseCIDRIdentitiesByID d identities w =
     w\<lparr>logs := logs w @ List.map_filter
             (\<lambda>nid. case LookupIdentityByID d nid (alloc w) of
                None \<Rightarrow> Some (LogWarning
                  ''Unexpected release of numeric identity that is no longer allocated'')
              | Some i \<Rightarrow>
                  if strings_HasPrefix (Labels_String d (CIDRLabel i)) (LabelSourceCIDR d) then None
                  else Some (LogWarning
                    ''Unexpected release of non-CIDR identity, will leak this identity. Please report this issue to the developers.''))
             identities,
       queue := enqueue d (List.map_filter (resolve_prefix d (alloc w)) identities)
                  ''selector-prefix-release'' (queue w)\<rparr>
   \<and> cache (ReleaseCIDRIdentitiesByID d identities w) = cache w
   \<and> alloc (ReleaseCIDRIdentitiesByID d identities w) = alloc w
   \<and> (LookupIdentityByID d nid a = Some i
        \<and> Labels_String d (CIDRLabel i) = LabelSourceCIDR d @ '':'' @ s
        \<longrightarrow> resolve_prefix d a nid = Some s)
   \<and> (LookupIdentityByID d nid a = None \<longrightarrow> resolve_prefix d a nid = None)
   \<and> (LookupIdentityByID d nid a = Some i
        \<and> \<not> strings_HasPrefix (Labels_String d (CIDRLabel i)) (LabelSourceCIDR d)
        \<longrightarrow> resolve_prefix d a nid = None)"
  by (simp add: ReleaseCIDRIdentitiesByID_def byID_loop resolve_prefix_def
        strings_HasPrefix_def strings_TrimPrefix_def)

text \<open>
  On the small instance: of a CIDR identity, an unknown number and an identity without
  CIDR label, only the prefix of the first is enqueued, with a warning for each of the
  other two.
\<close>

theorem release_by_id_resolves_prefixes_witness:
  "ReleaseCIDRIdentitiesByID demo_deps [256, 999, 300] demo_world_mixed
     = demo_world_mixed
         \<lparr>logs := [LogWarning ''Unexpected release of numeric identity that is no longer allocated'',
                   LogWarning ''Unexpected release of non-CIDR identity, will leak this identity. Please report this issue to the developers.''],
          queue := [([''10.0.0.0/24''], ''selector-prefix-release'')]\<rparr>
   \<and> resolve_prefix demo_deps (alloc demo_world_mixed) 256 = Some ''10.0.0.0/24''
   \<and> resolve_prefix demo_deps (alloc demo_world_mixed) 999 = None
   \<and> resolve_prefix demo_deps (alloc demo_world_mixed) 300 = None"
proof (intro conjI)
  note F = demo_byID_facts
  show "ReleaseCIDRIdentitiesByID demo_deps [256, 999, 300] demo_world_mixed
     = demo_world_mixed
         \<lparr>logs := [LogWarning ''Unexpected release of numeric identity that is no longer allocated'',
                   LogWarning ''Unexpected release of non-CIDR identity, will leak this identity. Please report this issue to the developers.''],
          queue := [([''10.0.0.0/24''], ''selector-prefix-release'')]\<rparr>"
    unfolding release_by_id_resolves_prefixes[of demo_deps "[256, 999, 300]" demo_world_mixed, THEN conjunct1]
    by code_simp
  show "resolve_prefix demo_deps (alloc demo_world_mixed) 256 = Some ''10.0.0.0/24''"
    by (rule release_by_id_resolves_prefixes[THEN conjunct2, THEN conjunct2, THEN conjunct2, THEN conjunct1, THEN mp])
       (rule conjI, rule F[THEN conjunct1], rule F[THEN conjunct2, THEN conjunct1])
  show "resolve_prefix demo_deps (alloc demo_world_mixed) 999 = None"
    by (rule release_by_id_resolves_prefixes[THEN conjunct2, THEN conjunct2, THEN conjunct2, THEN conjunct2, THEN conjunct1,
          THEN mp])
       (rule F[THEN conjunct2, THEN conjunct2, THEN conjunct1])
  show "resolve_prefix demo_deps (alloc demo_world_mixed) 300 = None"
    by (rule release_by_id_resolves_prefixes[THEN conjunct2, THEN conjunct2, THEN conjunct2, THEN conjunct2, THEN conjunct2,
          THEN mp])
       (rule conjI, rule F[THEN conjunct2, THEN conjunct2, THEN conjunct2, THEN conjunct1],
        rule F[THEN conjunct2, THEN conjunct2, THEN conjunct2, THEN conjunct2])
qed

end
